theory Spec2Isabelle
  imports Complex_Main "HOL-Library.AList" "HOL-Library.Char_ord" "HOL-Library.List_Lexorder"
begin

section \<open>Python values: errors, formatted numbers, paths\<close>

text \<open>
  Exceptions of the Python code are values. Every function that can raise returns
  \<open>exn + 'a\<close>, with \<open>Inl\<close> for the exception.
\<close>

datatype exn =
    ValueError string
  | ZeroDivisionError
  | FileNotFoundError string
  | BadZipFile string
  | ImportError string
  | WorkerError string

text \<open>\<open>str(n)\<close> for a non-negative integer: its decimal digits.\<close>

definition digit_char :: "nat \<Rightarrow> char" where
  "digit_char d = ''0123456789'' ! d"

fun str_nat :: "nat \<Rightarrow> string" where
  "str_nat n = (if n < 10 then [digit_char n] else str_nat (n div 10) @ [digit_char (n mod 10)])"

declare str_nat.simps [simp del]

text \<open>\<open>str(i)\<close> for a Python int: a minus sign before the digits of a negative number.\<close>

definition str_int :: "int \<Rightarrow> string" where
  "str_int i = (if i < 0 then CHR ''-'' # str_nat (nat (- i)) else str_nat (nat i))"

text \<open>
  The format specification \<open>{n:,}\<close>: the digits in groups of three, counted from the
  right, with a comma between groups.
\<close>

fun group3 :: "string \<Rightarrow> string" where
  "group3 (a # b # c # d # rest) = a # b # c # CHR '','' # group3 (d # rest)"
| "group3 xs = xs"

definition fmt_commas :: "nat \<Rightarrow> string" where
  "fmt_commas n = rev (group3 (rev (str_nat n)))"

text \<open>\<open>s.endswith(suffix)\<close>.\<close>

definition endswith :: "string \<Rightarrow> string \<Rightarrow> bool" where
  "endswith s suffix = (length suffix \<le> length s \<and> drop (length s - length suffix) s = suffix)"

text \<open>
  \<open>Path(p).name\<close>: the last component of a path. The paths of this program are the
  \<open>str(p)\<close> of directory entries, so they have no trailing slash.
\<close>

definition path_name :: "string \<Rightarrow> string" where
  "path_name p = rev (takeWhile (\<lambda>c. c \<noteq> CHR ''/'') (rev p))"

section \<open>The volume\<close>

text \<open>
  An entry of the document directory, as \<open>iterdir\<close>, \<open>is_file\<close> and \<open>stat\<close> see
  it. For an archive, \<open>namelist\<close> is what \<open>zipfile.ZipFile(path).namelist()\<close> returns,
  or the exception that opening the file as an archive raises.
\<close>

record dir_entry =
  is_file :: bool
  st_mtime_ns :: int
  st_size :: nat
  namelist :: "exn + string list"

text \<open>
  The text of a document is a Python \<open>str\<close>: the list of its code points.
  \<open>code_points\<close> gives the text that an ASCII literal stands for.
\<close>

type_synonym ustr = "nat list"

definition code_points :: "string \<Rightarrow> ustr" where
  "code_points s = map of_char s"

text \<open>
  A chunk as it is stored: \<open>(id, embedding, text, metadata)\<close>. Metadata is the dictionary
  \<open>{"source": ..., "filename": ...}\<close>, kept as its list of items.
\<close>

type_synonym metadata = "(string \<times> string) list"
type_synonym embedding = "real list"
type_synonym chunk = "string \<times> embedding \<times> ustr \<times> metadata"

text \<open>What the callbacks of a run observe: \<open>on_status(msg)\<close> and \<open>reload_fn()\<close>.\<close>

datatype event = Status string | Reload

text \<open>
  The state a run reads and writes. Dictionaries written as JSON and the vector
  collection are association lists in insertion order, read with \<open>map_of\<close> and written
  with \<open>AList.update\<close> (a dictionary assignment: the value is replaced in place, a new
  key is appended).
  \<^item> \<open>docs_dir\<close>: \<open>/data/rag/docs\<close>, \<open>None\<close> when the directory does not exist;
  \<^item> \<open>manifest_file\<close>: the object that \<open>json.loads\<close> reads from \<open>manifest.json\<close>,
    \<open>None\<close> when the file is missing or unreadable;
  \<^item> \<open>worker_manifests\<close>: the files \<open>manifest-worker-{id}.json\<close>;
  \<^item> \<open>pending\<close>: the files \<open>pending/worker-{id}.pkl\<close>, \<open>None\<close> when the
    directory does not exist;
  \<^item> \<open>collection\<close>: the vector collection \<open>rag_documents\<close>, keyed by chunk id;
  \<^item> \<open>events\<close>: the calls of the callbacks, oldest first.
\<close>

record world =
  docs_dir :: "(string \<times> dir_entry) list option"
  manifest_file :: "(string \<times> string) list option"
  worker_manifests :: "(nat \<times> (string \<times> string) list) list"
  pending :: "(nat \<times> chunk list) list option"
  collection :: "(string \<times> embedding \<times> ustr \<times> metadata) list"
  events :: "event list"

definition on_status :: "string \<Rightarrow> world \<Rightarrow> world" where
  "on_status msg w = w\<lparr>events := events w @ [Status msg]\<rparr>"

definition DOCS_DIR :: string where
  "DOCS_DIR = ''/data/rag/docs''"

text \<open>\<open>str(docs_dir / name)\<close>.\<close>

definition docs_path :: "string \<Rightarrow> string" where
  "docs_path name = DOCS_DIR @ ''/'' @ name"

text \<open>A path resolves to the directory entry it names; any other path does not exist.\<close>

definition lookup_path :: "world \<Rightarrow> string \<Rightarrow> dir_entry option" where
  "lookup_path w p =
     (case docs_dir w of
        None \<Rightarrow> None
      | Some entries \<Rightarrow> map_of (map (\<lambda>(name, f). (docs_path name, f)) entries) p)"

section \<open>Scanner (pipeline.py)\<close>

text \<open>\<open>_fingerprint\<close>: \<open>f"{stat.st_mtime_ns}:{stat.st_size}"\<close>.\<close>

definition fingerprint :: "dir_entry \<Rightarrow> string" where
  "fingerprint f = str_int (st_mtime_ns f) @ '':'' @ str_nat (st_size f)"

text \<open>\<open>_load_manifest\<close>: any failure to read the manifest gives the empty dictionary.\<close>

definition load_manifest :: "world \<Rightarrow> (string \<times> string) list" where
  "load_manifest w = (case manifest_file w of None \<Rightarrow> [] | Some m \<Rightarrow> m)"

text \<open>
  \<open>_scan\<close>. \<open>volume.reload()\<close> refreshes the local view of the volume and changes
  nothing that is stored. \<open>manifest.get(name) != fingerprint\<close> is true for a missing key.
\<close>

definition scan :: "bool \<Rightarrow> world \<Rightarrow> string list \<times> world" where
  "scan force w0 =
     (let w = on_status ''scanning documents...'' w0 in
      case docs_dir w of
        None \<Rightarrow> ([], w)
      | Some entries \<Rightarrow>
          let manifest = load_manifest w;
              all_files = sort_key fst (filter (\<lambda>(name, f). is_file f) entries);
              to_index = filter (\<lambda>(name, f). force \<or> map_of manifest name \<noteq> Some (fingerprint f))
                           all_files
          in (map (\<lambda>(name, f). docs_path name) to_index, w))"

section \<open>Batch planner (pipeline.py)\<close>

text \<open>
  A work item is the dictionary \<open>{"type": "files", "paths": [...]}\<close> or
  \<open>{"type": "zip_entries", "zip_path": ..., "entries": [...]}\<close>. \<open>Unknown t\<close> stands
  for a dictionary with any other \<open>"type"\<close>, which the worker refuses.
\<close>

datatype work_item =
    Files "string list"
  | Zip_entries string "string list"
  | Unknown string

definition N_WORKERS :: nat where
  "N_WORKERS = 8"

definition WORKERS_PER_GPU :: nat where
  "WORKERS_PER_GPU = 4"

text \<open>
  \<open>math.ceil(a / b)\<close> on two list lengths. The quotient is Python's true division; it
  is exact for every length below \<open>2 ^ 53\<close>, so the ceiling is taken of the real
  quotient. Division by zero raises.
\<close>

definition ceil_div :: "nat \<Rightarrow> nat \<Rightarrow> exn + nat" where
  "ceil_div a b = (if b = 0 then Inl ZeroDivisionError else Inr (nat \<lceil>real a / real b\<rceil>))"

text \<open>
  \<open>[xs[i : i + k] for i in range(0, len(xs), k)]\<close>: the loop takes \<open>k\<close> elements at a
  time until none is left. \<open>range\<close> refuses a step of zero.
\<close>

function slices :: "nat \<Rightarrow> 'a list \<Rightarrow> 'a list list" where
  "slices k xs = (if k = 0 \<or> xs = [] then [] else take k xs # slices k (drop k xs))"
  by pat_completeness auto
termination
  by (relation "measure (\<lambda>(k, xs). length xs)") auto

declare slices.simps [simp del]

definition range_slices :: "nat \<Rightarrow> 'a list \<Rightarrow> exn + 'a list list" where
  "range_slices k xs =
     (if k = 0 then Inl (ValueError ''range() arg 3 must not be zero'') else Inr (slices k xs))"

text \<open>
  The two statements \<open>chunk_size = math.ceil(len(xs) / n_batches)\<close> and the loop over
  \<open>range(0, len(xs), chunk_size)\<close>, which the planner runs on the regular files and on
  the entries of each archive.
\<close>

definition split_across :: "nat \<Rightarrow> 'a list \<Rightarrow> exn + 'a list list" where
  "split_across n_batches xs =
     (case ceil_div (length xs) n_batches of
        Inl e \<Rightarrow> Inl e
      | Inr chunk_size \<Rightarrow> range_slices chunk_size xs)"

text \<open>\<open>zipfile.ZipFile(path)\<close> followed by \<open>namelist()\<close>.\<close>

definition open_namelist :: "world \<Rightarrow> string \<Rightarrow> exn + string list" where
  "open_namelist w p =
     (case lookup_path w p of
        None \<Rightarrow> Inl (FileNotFoundError p)
      | Some f \<Rightarrow> namelist f)"

text \<open>The names of an archive that are not directories.\<close>

definition file_entries :: "string list \<Rightarrow> string list" where
  "file_entries names = filter (\<lambda>n. \<not> endswith n ''/'') names"

text \<open>The loop of \<open>_build_batches\<close> over the archives, on \<open>(batches, doc_count)\<close>.\<close>

fun zip_batches ::
  "nat \<Rightarrow> world \<Rightarrow> string list \<Rightarrow> work_item list \<times> nat \<Rightarrow> exn + work_item list \<times> nat" where
  "zip_batches n_batches w [] acc = Inr acc"
| "zip_batches n_batches w (zip_path # zips) (batches, doc_count) =
     (case open_namelist w zip_path of
        Inl e \<Rightarrow> Inl e
      | Inr names \<Rightarrow>
          let entries = file_entries names in
          (case split_across n_batches entries of
             Inl e \<Rightarrow> Inl e
           | Inr sl \<Rightarrow>
               zip_batches n_batches w zips
                 (batches @ map (Zip_entries zip_path) sl, doc_count + length entries)))"

text \<open>
  \<open>_build_batches\<close>, with the product \<open>N_WORKERS * WORKERS_PER_GPU\<close> as an argument.
  The regular files are split only when there is one.
\<close>

definition build_batches_n :: "nat \<Rightarrow> world \<Rightarrow> string list \<Rightarrow> exn + work_item list \<times> nat" where
  "build_batches_n n_batches w files =
     (let regular = filter (\<lambda>f. \<not> endswith f ''.zip'') files;
          zips = filter (\<lambda>f. endswith f ''.zip'') files
      in if regular \<noteq> [] then
           (case split_across n_batches regular of
              Inl e \<Rightarrow> Inl e
            | Inr sl \<Rightarrow> zip_batches n_batches w zips (map Files sl, length regular))
         else zip_batches n_batches w zips ([], 0))"

definition build_batches :: "world \<Rightarrow> string list \<Rightarrow> exn + work_item list \<times> nat" where
  "build_batches w files = build_batches_n (N_WORKERS * WORKERS_PER_GPU) w files"

text \<open>The path lists of the \<open>files\<close> items, and the entry slices of one archive's items.\<close>

fun files_paths :: "work_item \<Rightarrow> string list" where
  "files_paths (Files ps) = ps"
| "files_paths _ = []"

fun zip_slice :: "string \<Rightarrow> work_item \<Rightarrow> string list" where
  "zip_slice zp (Zip_entries zp' es) = (if zp' = zp then es else [])"
| "zip_slice zp _ = []"

text \<open>The entries of an archive that the planner distributes; none when it does not open.\<close>

definition entries_of :: "world \<Rightarrow> string \<Rightarrow> string list" where
  "entries_of w zp = (case open_namelist w zp of Inl e \<Rightarrow> [] | Inr names \<Rightarrow> file_entries names)"

fun is_zip_item :: "string \<Rightarrow> work_item \<Rightarrow> bool" where
  "is_zip_item zp (Zip_entries zp' es) = (zp' = zp)"
| "is_zip_item zp _ = False"

fun is_files_item :: "work_item \<Rightarrow> bool" where
  "is_files_item (Files ps) = True"
| "is_files_item _ = False"

section \<open>Example volume\<close>

definition regular_file :: "int \<Rightarrow> nat \<Rightarrow> dir_entry" where
  "regular_file m s =
     \<lparr>is_file = True, st_mtime_ns = m, st_size = s, namelist = Inl (BadZipFile ''File is not a zip file'')\<rparr>"

definition zip_file :: "int \<Rightarrow> nat \<Rightarrow> string list \<Rightarrow> dir_entry" where
  "zip_file m s names = \<lparr>is_file = True, st_mtime_ns = m, st_size = s, namelist = Inr names\<rparr>"

definition ex_entries :: "(string \<times> dir_entry) list" where
  "ex_entries =
     [(''c.zip'', zip_file 300 30 [''d/'', ''d/x.txt'', ''y.pdf'', ''z.txt'']),
      (''a.txt'', regular_file 100 10),
      (''b.txt'', regular_file 200 20)]"

definition ex_world :: world where
  "ex_world =
     \<lparr>docs_dir = Some ex_entries,
      manifest_file = Some [(''a.txt'', ''100:10''), (''b.txt'', ''150:20'')],
      worker_manifests = [], pending = None, collection = [], events = []\<rparr>"

definition ex_files :: "string list" where
  "ex_files = [''/data/rag/docs/a.txt'', ''/data/rag/docs/b.txt'', ''/data/rag/docs/c.zip'']"

text \<open>A volume with one regular file and one archive of 32 entries.\<close>

definition ex_big_world :: world where
  "ex_big_world =
     \<lparr>docs_dir = Some [(''a.txt'', regular_file 100 10),
                       (''big.zip'', zip_file 300 30 (map (\<lambda>c. [c]) ''abcdefghijklmnopqrstuvwxyz012345''))],
      manifest_file = None, worker_manifests = [], pending = None, collection = [], events = []\<rparr>"

definition ex_big_files :: "string list" where
  "ex_big_files = [''/data/rag/docs/a.txt'', ''/data/rag/docs/big.zip'']"

section \<open>Embedding worker (embed_worker.py)\<close>

text \<open>
  A document is \<open>(text, metadata)\<close>; a node of the splitter is
  \<open>(node_id, content, metadata)\<close>.
\<close>

type_synonym document = "ustr \<times> metadata"
type_synonym node = "string \<times> ustr \<times> metadata"

text \<open>
  The libraries and services a worker calls, as parameters:
  \<^item> \<open>load_data path\<close>: \<open>SimpleDirectoryReader(input_files=[path]).load_data()\<close>;
  \<^item> \<open>read_entry zip_path name\<close>: the body of the \<open>try\<close> in \<open>_read_zip_entry\<close>
    (\<open>zf.read\<close>, then PDF extraction or decoding);
  \<^item> \<open>get_nodes docs\<close>: \<open>splitter.get_nodes_from_documents(docs)\<close>, which also assigns
    the node ids;
  \<^item> \<open>tei_post texts\<close>: one request to the embedding server, with \<open>raise_for_status\<close>;
  \<^item> \<open>hf_embed texts\<close>: \<open>get_text_embedding_batch\<close> of the in-process model.
\<close>

record env =
  load_data :: "string \<Rightarrow> exn + document list"
  read_entry :: "string \<Rightarrow> string \<Rightarrow> exn + ustr"
  get_nodes :: "document list \<Rightarrow> node list"
  tei_post :: "ustr list \<Rightarrow> exn + embedding list"
  hf_embed :: "ustr list \<Rightarrow> exn + embedding list"

definition EMBED_BATCH_SIZE :: nat where
  "EMBED_BATCH_SIZE = 1024"

definition TEI_BATCH_SIZE :: nat where
  "TEI_BATCH_SIZE = 256"

definition UPSERT_BATCH :: nat where
  "UPSERT_BATCH = 5000"

text \<open>
  The code points that \<open>str.strip()\<close> removes, those for which \<open>str.isspace\<close> holds:
  U+0009 to U+000D, U+001C to U+0020, U+0085, U+00A0, U+1680, U+2000 to U+200A, U+2028,
  U+2029, U+202F, U+205F and U+3000.
\<close>

definition is_space :: "nat \<Rightarrow> bool" where
  "is_space c =
     (0x09 \<le> c \<and> c \<le> 0x0D \<or> 0x1C \<le> c \<and> c \<le> 0x20 \<or> c = 0x85 \<or> c = 0xA0 \<or> c = 0x1680
      \<or> 0x2000 \<le> c \<and> c \<le> 0x200A \<or> c = 0x2028 \<or> c = 0x2029 \<or> c = 0x202F \<or> c = 0x205F
      \<or> c = 0x3000)"

text \<open>\<open>_read_zip_entry\<close>: any exception gives \<open>None\<close>.\<close>

definition read_zip_entry :: "env \<Rightarrow> string \<Rightarrow> string \<Rightarrow> ustr option" where
  "read_zip_entry env zip_path name =
     (case read_entry env zip_path name of Inl e \<Rightarrow> None | Inr text \<Rightarrow> Some text)"

text \<open>\<open>not text or not text.strip()\<close>.\<close>

fun blank :: "ustr option \<Rightarrow> bool" where
  "blank None = True"
| "blank (Some text) = list_all is_space text"

text \<open>\<open>_embed_texts\<close>: one request for each \<open>TEI_BATCH_SIZE\<close> texts.\<close>

fun embed_requests :: "env \<Rightarrow> ustr list list \<Rightarrow> embedding list \<Rightarrow> exn + embedding list" where
  "embed_requests env [] all_embeddings = Inr all_embeddings"
| "embed_requests env (batch # batches) all_embeddings =
     (case tei_post env batch of
        Inl e \<Rightarrow> Inl e
      | Inr vs \<Rightarrow> embed_requests env batches (all_embeddings @ vs))"

definition embed_texts :: "env \<Rightarrow> ustr list \<Rightarrow> exn + embedding list" where
  "embed_texts env texts = embed_requests env (slices TEI_BATCH_SIZE texts) []"

text \<open>
  \<open>_chunk_and_embed\<close>, on the list \<open>self._pending\<close>: returns the number of nodes and the
  extended list.
\<close>

definition chunk_and_embed :: "env \<Rightarrow> document list \<Rightarrow> chunk list \<Rightarrow> exn + nat \<times> chunk list" where
  "chunk_and_embed env docs pending_chunks =
     (let nodes = get_nodes env docs in
      if nodes = [] then Inr (0, pending_chunks)
      else
        (case embed_texts env (map (\<lambda>(node_id, text, meta). text) nodes) of
           Inl e \<Rightarrow> Inl e
         | Inr embeddings \<Rightarrow>
             Inr (length nodes,
                  pending_chunks @
                    map (\<lambda>((node_id, text, meta), emb). (node_id, emb, text, meta))
                      (zip nodes embeddings))))"

text \<open>\<open>_load_file\<close>: no exception of the reader is caught here.\<close>

definition load_file :: "env \<Rightarrow> string \<Rightarrow> string \<Rightarrow> exn + document list" where
  "load_file env file_path source =
     (case load_data env file_path of
        Inl e \<Rightarrow> Inl e
      | Inr docs \<Rightarrow> Inr (map (\<lambda>(text, meta). (text, AList.update ''source'' source meta)) docs))"

text \<open>\<open>_embed_files\<close>, on \<open>(total, self._pending)\<close>.\<close>

fun embed_files :: "env \<Rightarrow> string list \<Rightarrow> nat \<times> chunk list \<Rightarrow> exn + nat \<times> chunk list" where
  "embed_files env [] acc = Inr acc"
| "embed_files env (file_path # file_paths) (tot, pending_chunks) =
     (case load_file env file_path (path_name file_path) of
        Inl e \<Rightarrow> Inl e
      | Inr docs \<Rightarrow>
          (case chunk_and_embed env docs pending_chunks of
             Inl e \<Rightarrow> Inl e
           | Inr (cnt, pending') \<Rightarrow> embed_files env file_paths (tot + cnt, pending')))"

text \<open>The loop of \<open>_embed_zip_entries\<close> over the entry names, on \<open>(batch, total, self._pending)\<close>.\<close>

fun zip_loop ::
  "env \<Rightarrow> string \<Rightarrow> string list \<Rightarrow> document list \<times> nat \<times> chunk list
     \<Rightarrow> exn + document list \<times> nat \<times> chunk list" where
  "zip_loop env zip_path [] st = Inr st"
| "zip_loop env zip_path (name # names) (batch, tot, pending_chunks) =
     (case read_zip_entry env zip_path name of
        None \<Rightarrow> zip_loop env zip_path names (batch, tot, pending_chunks)
      | Some text \<Rightarrow>
          if blank (Some text) then zip_loop env zip_path names (batch, tot, pending_chunks)
          else
            (let batch' = batch @ [(text, [(''source'', path_name zip_path), (''filename'', name)])] in
             if EMBED_BATCH_SIZE \<le> length batch' then
               (case chunk_and_embed env batch' pending_chunks of
                  Inl e \<Rightarrow> Inl e
                | Inr (cnt, pending') \<Rightarrow> zip_loop env zip_path names ([], tot + cnt, pending'))
             else zip_loop env zip_path names (batch', tot, pending_chunks)))"

text \<open>\<open>_embed_zip_entries\<close>: the archive is opened, the loop runs, the last batch is embedded.\<close>

definition embed_zip_entries ::
  "env \<Rightarrow> world \<Rightarrow> string \<Rightarrow> string list \<Rightarrow> exn + nat \<times> chunk list" where
  "embed_zip_entries env w zip_path entries =
     (case open_namelist w zip_path of
        Inl e \<Rightarrow> Inl e
      | Inr names \<Rightarrow>
          (case zip_loop env zip_path entries ([], 0, []) of
             Inl e \<Rightarrow> Inl e
           | Inr (batch, tot, pending_chunks) \<Rightarrow>
               if batch \<noteq> [] then
                 (case chunk_and_embed env batch pending_chunks of
                    Inl e \<Rightarrow> Inl e
                  | Inr (cnt, pending') \<Rightarrow> Inr (tot + cnt, pending'))
               else Inr (tot, pending_chunks)))"

text \<open>
  \<open>collection.upsert\<close> of one batch: each chunk replaces the entry of its id or is added.
\<close>

definition upsert :: "chunk list \<Rightarrow> (string \<times> embedding \<times> ustr \<times> metadata) list
    \<Rightarrow> (string \<times> embedding \<times> ustr \<times> metadata) list" where
  "upsert batch coll = foldl (\<lambda>c (chunk_id, rest). AList.update chunk_id rest c) coll batch"

text \<open>\<open>_flush_to_chroma\<close>.\<close>

definition flush_to_chroma :: "chunk list \<Rightarrow> world \<Rightarrow> world" where
  "flush_to_chroma pending_chunks w =
     (if pending_chunks = [] then w
      else w\<lparr>collection := foldl (\<lambda>c batch. upsert batch c) (collection w)
                              (slices UPSERT_BATCH pending_chunks)\<rparr>)"

text \<open>
  \<open>_write_manifest\<close>: \<open>work.get("paths", [work["zip_path"]] if "zip_path" in work else [])\<close>,
  then one entry for each path, under the name of its file, and the dictionary written as
  \<open>manifest-worker-{id}.json\<close>. \<open>stat\<close> of a missing path raises.
\<close>

fun manifest_paths :: "work_item \<Rightarrow> string list" where
  "manifest_paths (Files paths) = paths"
| "manifest_paths (Zip_entries zip_path entries) = [zip_path]"
| "manifest_paths (Unknown t) = []"

fun stat_paths :: "world \<Rightarrow> string list \<Rightarrow> (string \<times> string) list \<Rightarrow> exn + (string \<times> string) list" where
  "stat_paths w [] manifest = Inr manifest"
| "stat_paths w (p # ps) manifest =
     (case lookup_path w p of
        None \<Rightarrow> Inl (FileNotFoundError p)
      | Some f \<Rightarrow> stat_paths w ps (AList.update (path_name p) (fingerprint f) manifest))"

definition write_manifest :: "nat \<Rightarrow> work_item \<Rightarrow> world \<Rightarrow> exn + world" where
  "write_manifest worker_id work w =
     (case stat_paths w (manifest_paths work) [] of
        Inl e \<Rightarrow> Inl e
      | Inr manifest \<Rightarrow>
          Inr (w\<lparr>worker_manifests := AList.update worker_id manifest (worker_manifests w)\<rparr>))"

text \<open>
  \<open>EmbedWorker.embed\<close>. An exception leaves the volume as the worker had written it so
  far: nothing before the flush, the collection after it.
\<close>

definition embed :: "env \<Rightarrow> work_item \<Rightarrow> nat \<Rightarrow> world \<Rightarrow> (exn + nat \<times> nat) \<times> world" where
  "embed env work worker_id w =
     (case (case work of
              Files paths \<Rightarrow> embed_files env paths (0, [])
            | Zip_entries zip_path entries \<Rightarrow> embed_zip_entries env w zip_path entries
            | Unknown t \<Rightarrow> Inl (ValueError (''Unknown work type: '' @ t))) of
        Inl e \<Rightarrow> (Inl e, w)
      | Inr (tot, pending_chunks) \<Rightarrow>
          (let w1 = flush_to_chroma pending_chunks w in
           case write_manifest worker_id work w1 of
             Inl e \<Rightarrow> (Inl e, w1)
           | Inr w2 \<Rightarrow> (Inr (worker_id, tot), w2)))"

text \<open>Libraries for the example volume: one file that the reader refuses, one archive entry
  that does not extract and one that is blank.\<close>

definition ex_env :: env where
  "ex_env =
     \<lparr>load_data = (\<lambda>p. if p = ''/data/rag/docs/b.txt'' then Inl (ValueError ''cannot parse'')
                         else Inr [(code_points ''alpha beta'', [(''file_path'', p)])]),
      read_entry = (\<lambda>zp name. if name = ''y.pdf'' then Inl (ValueError ''not a PDF'')
                               else if name = ''z.txt'' then Inr (code_points ''  '')
                               else Inr (code_points ''gamma'')),
      get_nodes = map (\<lambda>(content, meta).
                    (''node:'' @ (case rev meta of [] \<Rightarrow> [] | (k, v) # rest \<Rightarrow> v), content, meta)),
      tei_post = (\<lambda>texts. Inr (map (\<lambda>t. [0]) texts)),
      hf_embed = (\<lambda>texts. Inr (map (\<lambda>t. [1]) texts))\<rparr>"

section \<open>Staging worker and finalizer (indexer_workers.py)\<close>

definition RAG_N_WORKERS :: nat where
  "RAG_N_WORKERS = 10"

text \<open>\<open>_embed_batch\<close>, on the list of records.\<close>

definition embed_batch :: "env \<Rightarrow> document list \<Rightarrow> chunk list \<Rightarrow> exn + chunk list" where
  "embed_batch env docs records =
     (let nodes = get_nodes env docs in
      if nodes = [] then Inr records
      else
        (case hf_embed env (map (\<lambda>(node_id, content, meta). content) nodes) of
           Inl e \<Rightarrow> Inl e
         | Inr embeddings \<Rightarrow>
             Inr (records @
                    map (\<lambda>((node_id, content, meta), emb). (node_id, emb, content, meta))
                      (zip nodes embeddings))))"

text \<open>The loop over the names of one archive, on \<open>(batch, all_records)\<close>.\<close>

fun staging_zip_loop ::
  "env \<Rightarrow> string \<Rightarrow> string list \<Rightarrow> document list \<times> chunk list
     \<Rightarrow> exn + document list \<times> chunk list" where
  "staging_zip_loop env file_path [] st = Inr st"
| "staging_zip_loop env file_path (name # names) (batch, records) =
     (case read_zip_entry env file_path name of
        None \<Rightarrow> staging_zip_loop env file_path names (batch, records)
      | Some content \<Rightarrow>
          if blank (Some content) then staging_zip_loop env file_path names (batch, records)
          else
            (let batch' = batch @ [(content, [(''source'', path_name file_path), (''filename'', name)])] in
             if EMBED_BATCH_SIZE \<le> length batch' then
               (case embed_batch env batch' records of
                  Inl e \<Rightarrow> Inl e
                | Inr records' \<Rightarrow> staging_zip_loop env file_path names ([], records'))
             else staging_zip_loop env file_path names (batch', records)))"

text \<open>The loop of \<open>embed\<close> over the files, on \<open>all_records\<close>.\<close>

fun staging_files :: "env \<Rightarrow> world \<Rightarrow> string list \<Rightarrow> chunk list \<Rightarrow> exn + chunk list" where
  "staging_files env w [] records = Inr records"
| "staging_files env w (file_path # file_paths) records =
     (if endswith file_path ''.zip'' then
        (case open_namelist w file_path of
           Inl e \<Rightarrow> Inl e
         | Inr names \<Rightarrow>
             (case staging_zip_loop env file_path (file_entries names) ([], records) of
                Inl e \<Rightarrow> Inl e
              | Inr (batch, records') \<Rightarrow>
                  if batch \<noteq> [] then
                    (case embed_batch env batch records' of
                       Inl e \<Rightarrow> Inl e
                     | Inr records'' \<Rightarrow> staging_files env w file_paths records'')
                  else staging_files env w file_paths records'))
      else
        (case load_file env file_path (path_name file_path) of
           Inl e \<Rightarrow> Inl e
         | Inr docs \<Rightarrow>
             (case embed_batch env docs records of
                Inl e \<Rightarrow> Inl e
              | Inr records' \<Rightarrow> staging_files env w file_paths records')))"

text \<open>
  \<open>EmbedWorker.embed\<close> of indexer_workers.py. The start of the worker creates the
  directory \<open>pending\<close>; the records are written as \<open>worker-{id}.pkl\<close> only after the last
  file.
\<close>

definition pending_files :: "world \<Rightarrow> (nat \<times> chunk list) list" where
  "pending_files w = (case pending w of None \<Rightarrow> [] | Some pkls \<Rightarrow> pkls)"

definition staging_embed :: "env \<Rightarrow> string list \<Rightarrow> nat \<Rightarrow> world \<Rightarrow> (exn + nat \<times> nat) \<times> world" where
  "staging_embed env file_paths worker_id w0 =
     (let w = w0\<lparr>pending := Some (pending_files w0)\<rparr> in
      case staging_files env w file_paths [] of
        Inl e \<Rightarrow> (Inl e, w)
      | Inr all_records \<Rightarrow>
          (Inr (worker_id, length all_records),
           w\<lparr>pending := Some (AList.update worker_id all_records (pending_files w))\<rparr>))"

text \<open>The name that \<open>sorted(PENDING_DIR.glob("*.pkl"))\<close> orders the staged files by.\<close>

definition pkl_name :: "nat \<Rightarrow> string" where
  "pkl_name worker_id = ''worker-'' @ str_nat worker_id @ ''.pkl''"

text \<open>The merge of one staged file, on \<open>(collection, total)\<close>.\<close>

definition merge_pkl ::
  "(string \<times> embedding \<times> ustr \<times> metadata) list \<times> nat \<Rightarrow> chunk list
     \<Rightarrow> (string \<times> embedding \<times> ustr \<times> metadata) list \<times> nat" where
  "merge_pkl acc records =
     (foldl (\<lambda>c batch. upsert batch c) (fst acc) (slices UPSERT_BATCH records),
      snd acc + length records)"

text \<open>The manifest that \<open>finalize_index\<close> writes: one entry for each file of the directory.\<close>

definition docs_manifest :: "world \<Rightarrow> (string \<times> string) list" where
  "docs_manifest w =
     (case docs_dir w of
        None \<Rightarrow> []
      | Some entries \<Rightarrow>
          foldl (\<lambda>manifest (name, f). AList.update name (fingerprint f) manifest) []
            (filter (\<lambda>(name, f). is_file f) (sort_key fst entries)))"

text \<open>
  \<open>finalize_index(force)\<close> of indexer_workers.py: the collection is emptied under
  \<open>force\<close>, the staged files are merged in the order of their names, the manifest is
  written, the directory \<open>pending\<close> is removed, and the summary is returned.
\<close>

definition finalize_index :: "bool \<Rightarrow> world \<Rightarrow> string \<times> world" where
  "finalize_index force w =
     (let coll0 = (if force then [] else collection w);
          pkl_files = sort_key (\<lambda>(worker_id, records). pkl_name worker_id) (pending_files w);
          merged = foldl merge_pkl (coll0, 0) (map snd pkl_files);
          manifest = docs_manifest w;
          summary = ''Indexed '' @ fmt_commas (snd merged) @ '' chunks from ''
                      @ str_nat (length manifest) @ '' file(s).''
      in (summary,
          w\<lparr>collection := fst merged, manifest_file := Some manifest, pending := None\<rparr>))"

section \<open>Client (index_client.py)\<close>

text \<open>\<open>_list_docs\<close>.\<close>

definition list_docs :: "world \<Rightarrow> string list" where
  "list_docs w =
     (case docs_dir w of
        None \<Rightarrow> []
      | Some entries \<Rightarrow>
          map (\<lambda>(name, f). docs_path name) (filter (\<lambda>(name, f). is_file f) (sort_key fst entries)))"

text \<open>
  The loop over \<open>embed_method.map(batches, worker_ids, return_exceptions=True)\<close>, on
  \<open>(total_chunks, failed)\<close>. The workers are run one after the other in the order of their
  ids, each on the volume the previous one left; a worker that raises is counted and the
  loop goes on.
\<close>

definition worker_done :: "nat \<Rightarrow> nat \<Rightarrow> nat \<Rightarrow> string" where
  "worker_done wid cnt total_chunks =
     ''worker-'' @ str_nat wid @ '' done: '' @ fmt_commas cnt @ '' chunks (total: ''
       @ fmt_commas total_chunks @ '')''"

fun fan_out_results ::
  "('a \<Rightarrow> nat \<Rightarrow> world \<Rightarrow> (exn + nat \<times> nat) \<times> world) \<Rightarrow> ('a \<times> nat) list \<Rightarrow> nat \<times> nat \<Rightarrow> world
     \<Rightarrow> (nat \<times> nat) \<times> world" where
  "fan_out_results embed_method [] acc w = (acc, w)"
| "fan_out_results embed_method ((batch, worker_id) # rest) (total_chunks, failed) w =
     (case embed_method batch worker_id w of
        (Inl e, w1) \<Rightarrow> fan_out_results embed_method rest (total_chunks, failed + 1) w1
      | (Inr (wid, cnt), w1) \<Rightarrow>
          fan_out_results embed_method rest (total_chunks + cnt, failed)
            (on_status (worker_done wid cnt (total_chunks + cnt)) w1))"

definition failed_message :: "nat \<Rightarrow> nat \<Rightarrow> string" where
  "failed_message failed total_chunks =
     ''Embedding failed for '' @ str_nat failed @ '' worker(s). '' @ fmt_commas total_chunks
       @ '' chunks succeeded. Run `reindex` again to retry.''"

text \<open>\<open>_fan_out\<close>: the error string, or \<open>None\<close> when no worker failed.\<close>

definition fan_out ::
  "string list \<Rightarrow> (string list \<Rightarrow> nat \<Rightarrow> world \<Rightarrow> (exn + nat \<times> nat) \<times> world) \<Rightarrow> nat \<Rightarrow> world
     \<Rightarrow> exn + string option \<times> world" where
  "fan_out all_files embed_method n_workers w =
     (case split_across n_workers all_files of
        Inl e \<Rightarrow> Inl e
      | Inr batches \<Rightarrow>
          (case fan_out_results embed_method (zip batches [0..<length batches]) (0, 0) w of
             ((total_chunks, failed), w1) \<Rightarrow>
               if failed \<noteq> 0 then Inr (Some (failed_message failed total_chunks), w1)
               else Inr (None, w1)))"

text \<open>\<open>reload_fn\<close>, when one is given: the status and the call.\<close>

definition reload_index :: "bool \<Rightarrow> world \<Rightarrow> world" where
  "reload_index reload_fn w =
     (if reload_fn then (on_status ''reloading search index...'' w)\<lparr>events :=
          events (on_status ''reloading search index...'' w) @ [Reload]\<rparr>
      else w)"

definition NO_DOCUMENTS :: string where
  "NO_DOCUMENTS = ''No documents found in /data/rag/docs/. Share files via Slack first.''"

text \<open>\<open>_run\<close>, with the method of the worker as an argument as in \<open>_fan_out\<close>.\<close>

definition run ::
  "(string list \<Rightarrow> nat \<Rightarrow> world \<Rightarrow> (exn + nat \<times> nat) \<times> world) \<Rightarrow> bool \<Rightarrow> bool \<Rightarrow> world
     \<Rightarrow> exn + string \<times> world" where
  "run embed_method force reload_fn w0 =
     (let w = on_status ''scanning documents...'' w0;
          all_files = list_docs w
      in if all_files = [] then Inr (NO_DOCUMENTS, w)
         else
           (case fan_out all_files embed_method RAG_N_WORKERS
                   (on_status (''embedding '' @ str_nat (length all_files)
                       @ '' file(s) across GPU workers...'') w) of
              Inl e \<Rightarrow> Inl e
            | Inr (Some error, w1) \<Rightarrow> Inr (error, w1)
            | Inr (None, w1) \<Rightarrow>
                (case finalize_index force (on_status ''writing to ChromaDB...'' w1) of
                   (result, w2) \<Rightarrow> Inr (result, reload_index reload_fn w2))))"

section \<open>Pipeline (pipeline.py)\<close>

text \<open>
  The loop of \<open>_embed\<close> over \<open>EmbedWorker().embed.map(batches, worker_ids,
  return_exceptions=True)\<close>, on \<open>total\<close>: an exception is printed and nothing is counted.
\<close>

fun embed_results :: "env \<Rightarrow> (work_item \<times> nat) list \<Rightarrow> nat \<Rightarrow> world \<Rightarrow> nat \<times> world" where
  "embed_results env [] tot w = (tot, w)"
| "embed_results env ((work, worker_id) # rest) tot w =
     (case embed env work worker_id w of
        (Inl e, w1) \<Rightarrow> embed_results env rest tot w1
      | (Inr (wid, cnt), w1) \<Rightarrow>
          embed_results env rest (tot + cnt) (on_status (worker_done wid cnt (tot + cnt)) w1))"

text \<open>\<open>_embed\<close>: returns the document count of the planner.\<close>

definition pipeline_embed :: "env \<Rightarrow> string list \<Rightarrow> world \<Rightarrow> exn + nat \<times> world" where
  "pipeline_embed env files w =
     (case build_batches w files of
        Inl e \<Rightarrow> Inl e
      | Inr (batches, doc_count) \<Rightarrow>
          Inr (doc_count,
               snd (embed_results env (zip batches [0..<length batches]) 0
                      (on_status (''embedding '' @ fmt_commas doc_count @ '' documents across ''
                          @ str_nat (length batches) @ '' GPU workers...'') w))))"

text \<open>
  Modelled from the spec: \<open>agents.index_pipeline.finalize_index(force, doc_count)\<close>, which
  \<open>_finalize\<close> calls and which is not among the sources. Section 4.4 of the specification
  describes one finalizer: under \<open>force\<close> the collection is rebuilt, the staged outputs of
  the workers are merged, one manifest entry is written for every file present in the
  document directory, the staging files are removed and a summary is returned. This is
  what \<open>finalize_index\<close> of indexer_workers.py does; the document count is for the report.
\<close>

definition pipeline_finalize_index :: "bool \<Rightarrow> nat \<Rightarrow> world \<Rightarrow> string \<times> world" where
  "pipeline_finalize_index force doc_count w = finalize_index force w"

text \<open>\<open>_finalize\<close>.\<close>

definition pipeline_finalize :: "bool \<Rightarrow> nat \<Rightarrow> world \<Rightarrow> string \<times> world" where
  "pipeline_finalize force doc_count w =
     pipeline_finalize_index force doc_count (on_status ''finalizing index...'' w)"

definition ALL_INDEXED :: string where
  "ALL_INDEXED = ''All documents already indexed. Share new files or run `reindex --force` to rebuild.''"

text \<open>\<open>_empty_result\<close>.\<close>

definition empty_result :: "world \<Rightarrow> string" where
  "empty_result w =
     (case docs_dir w of
        None \<Rightarrow> NO_DOCUMENTS
      | Some entries \<Rightarrow>
          if list_ex (\<lambda>(name, f). is_file f \<and> map_of (load_manifest w) name \<noteq> None) entries
          then ALL_INDEXED else NO_DOCUMENTS)"

text \<open>\<open>reindex\<close>, under the lock of the pipeline.\<close>

definition reindex :: "env \<Rightarrow> bool \<Rightarrow> bool \<Rightarrow> world \<Rightarrow> exn + string \<times> world" where
  "reindex env force reload_fn w0 =
     (case scan force w0 of
        (files, w) \<Rightarrow>
          if files = [] then Inr (empty_result w, w)
          else
            (case pipeline_embed env files w of
               Inl e \<Rightarrow> Inl e
             | Inr (doc_count, w1) \<Rightarrow>
                 (case pipeline_finalize force doc_count w1 of
                    (result, w2) \<Rightarrow> Inr (result, reload_index reload_fn w2))))"

text \<open>An embedding model that fails, and a volume whose files are all indexed.\<close>

definition ex_down_env :: env where
  "ex_down_env = ex_env\<lparr>hf_embed := (\<lambda>texts. Inl (WorkerError ''CUDA out of memory''))\<rparr>"

definition ex_indexed_world :: world where
  "ex_indexed_world =
     \<lparr>docs_dir = Some [(''a.txt'', regular_file 100 10), (''b.txt'', regular_file 200 20)],
      manifest_file = Some [(''a.txt'', ''100:10''), (''b.txt'', ''200:20'')],
      worker_manifests = [], pending = None,
      collection = [(''node:old'', [0], code_points ''old'', [(''source'', ''a.txt'')])], events = []\<rparr>"

text \<open>
  The results that the loop of \<open>_fan_out\<close> receives from the workers, in order, and the
  number of chunks a result reports.
\<close>

fun fan_out_outcomes ::
  "('a \<Rightarrow> nat \<Rightarrow> world \<Rightarrow> (exn + nat \<times> nat) \<times> world) \<Rightarrow> ('a \<times> nat) list \<Rightarrow> nat \<times> nat \<Rightarrow> world
     \<Rightarrow> (exn + nat \<times> nat) list" where
  "fan_out_outcomes embed_method [] acc w = []"
| "fan_out_outcomes embed_method ((batch, worker_id) # rest) (total_chunks, failed) w =
     (case embed_method batch worker_id w of
        (Inl e, w1) \<Rightarrow> Inl e # fan_out_outcomes embed_method rest (total_chunks, failed + 1) w1
      | (Inr (wid, cnt), w1) \<Rightarrow>
          Inr (wid, cnt) #
            fan_out_outcomes embed_method rest (total_chunks + cnt, failed)
              (on_status (worker_done wid cnt (total_chunks + cnt)) w1))"

fun chunks_of :: "exn + nat \<times> nat \<Rightarrow> nat" where
  "chunks_of (Inl e) = 0"
| "chunks_of (Inr (wid, cnt)) = cnt"

text \<open>A volume with two new files and nothing indexed.\<close>

definition ex_new_world :: world where
  "ex_new_world =
     \<lparr>docs_dir = Some [(''b.txt'', regular_file 200 20), (''a.txt'', regular_file 100 10)],
      manifest_file = None, worker_manifests = [], pending = None, collection = [], events = []\<rparr>"

text \<open>The volume after the two workers of the client, the second of which fails.\<close>

definition ex_after_workers :: world where
  "ex_after_workers =
     ex_new_world
       \<lparr>pending := Some [(0, [(''node:a.txt'', [1], code_points ''alpha beta'',
                              [(''file_path'', ''/data/rag/docs/a.txt''), (''source'', ''a.txt'')])])],
        events := [Status ''scanning documents...'',
                   Status ''embedding 2 file(s) across GPU workers...'',
                   Status ''worker-0 done: 1 chunks (total: 1)'']\<rparr>"

text \<open>The names of a directory are distinct.\<close>

definition distinct_names :: "world \<Rightarrow> bool" where
  "distinct_names w = (case docs_dir w of None \<Rightarrow> True | Some entries \<Rightarrow> distinct (map fst entries))"

text \<open>The volume after a run of the pipeline in which the worker of \<open>b.txt\<close> fails.\<close>

definition ex_retry_world :: world where
  "ex_retry_world =
     ex_new_world
       \<lparr>manifest_file := Some [(''a.txt'', ''100:10''), (''b.txt'', ''200:20'')],
        worker_manifests := [(0, [(''a.txt'', ''100:10'')])],
        collection := [(''node:a.txt'', [0], code_points ''alpha beta'',
                        [(''file_path'', ''/data/rag/docs/a.txt''), (''source'', ''a.txt'')])],
        events := [Status ''scanning documents...'',
                   Status ''embedding 2 documents across 2 GPU workers...'',
                   Status ''worker-0 done: 1 chunks (total: 1)'',
                   Status ''finalizing index...'']\<rparr>"

text \<open>A volume with one regular file and one archive that holds only a directory entry.\<close>

definition ex_empty_zip_world :: world where
  "ex_empty_zip_world =
     \<lparr>docs_dir = Some [(''a.txt'', regular_file 100 10), (''empty.zip'', zip_file 300 22 [''d/''])],
      manifest_file = None, worker_manifests = [], pending = None, collection = [], events = []\<rparr>"

text \<open>
  A volume with a Word document, and libraries in which the reader of that format lacks the
  package it imports (the image installs \<open>python-docx\<close>, the reader imports
  \<open>docx2txt\<close>). \<open>SimpleDirectoryReader\<close> skips a file whose reader fails, but raises
  an \<open>ImportError\<close> of the reader again.
\<close>

definition ex_docx_world :: world where
  "ex_docx_world =
     \<lparr>docs_dir = Some [(''a.txt'', regular_file 100 10), (''report.docx'', regular_file 400 40)],
      manifest_file = None, worker_manifests = [], pending = None, collection = [], events = []\<rparr>"

definition DOCX_ERROR :: exn where
  "DOCX_ERROR = ImportError ''docx2txt is required to read Microsoft Word files: `pip install docx2txt`''"

definition ex_docx_env :: env where
  "ex_docx_env =
     ex_env\<lparr>load_data := (\<lambda>p. if endswith p ''.docx'' then Inl DOCX_ERROR
                                else Inr [(code_points ''alpha beta'', [(''file_path'', p)])])\<rparr>"

text \<open>
  Modelled from the spec: the manifest step of \<open>agents.index_pipeline.finalize_index\<close>,
  which is not among the sources, as the sources that use it describe it: embed_worker.py
  says of the files \<open>manifest-worker-{id}.json\<close> that "the finalize step merges these into
  manifest.json", and \<open>_finalize\<close> prints "merging worker manifests...". The entries of
  every worker manifest are written into the manifest that is there, an entry replacing
  the one of the same name, and the worker manifests are removed.
\<close>

definition merge_worker_manifests :: "world \<Rightarrow> world" where
  "merge_worker_manifests w =
     w\<lparr>manifest_file :=
          Some (foldl (\<lambda>m (worker_id, entries). foldl (\<lambda>m (name, fp). AList.update name fp m) m entries)
                  (load_manifest w) (worker_manifests w)),
        worker_manifests := []\<rparr>"

text \<open>
  A volume with one new archive of two entries, and an embedding server that answers 503
  to the request that holds the text of the second entry.
\<close>

definition ex_zip_world :: world where
  "ex_zip_world =
     \<lparr>docs_dir = Some [(''c.zip'', zip_file 300 30 [''x.txt'', ''y.txt''])],
      manifest_file = None, worker_manifests = [], pending = None, collection = [], events = []\<rparr>"

definition ex_flaky_env :: env where
  "ex_flaky_env =
     ex_env\<lparr>read_entry := (\<lambda>zp name. Inr (code_points name)),
            tei_post := (\<lambda>texts. if code_points ''y.txt'' \<in> set texts
                                  then Inl (WorkerError ''503 Server Error: Service Unavailable'')
                                  else Inr (map (\<lambda>t. [0]) texts))\<rparr>"

text \<open>The volume after the two workers of the pipeline, the second of which fails.\<close>

definition ex_zip_after :: world where
  "ex_zip_after =
     ex_zip_world
       \<lparr>worker_manifests := [(0, [(''c.zip'', ''300:30'')])],
        collection := [(''node:x.txt'', [0], code_points ''x.txt'',
                        [(''source'', ''c.zip''), (''filename'', ''x.txt'')])],
        events := [Status ''scanning documents...'',
                   Status ''embedding 2 documents across 2 GPU workers...'',
                   Status ''worker-0 done: 1 chunks (total: 1)'']\<rparr>"

section \<open>Properties of the formatting functions\<close>

lemma digit_char_inj: "a < 10 \<Longrightarrow> b < 10 \<Longrightarrow> digit_char a = digit_char b \<Longrightarrow> a = b"
  unfolding digit_char_def
  by (rule nth_eq_iff_index_eq [THEN iffD1, of "''0123456789''"]) simp_all

lemma digit_char_set: "d < 10 \<Longrightarrow> digit_char d \<in> set ''0123456789''"
  unfolding digit_char_def by (rule nth_mem) simp

lemma str_nat_set: "set (str_nat n) \<subseteq> set ''0123456789''"
proof (induction n rule: str_nat.induct)
  case (1 n)
  show ?case
  proof (cases "n < 10")
    case True
    then show ?thesis using digit_char_set [of n] by (subst str_nat.simps) simp
  next
    case False
    have "n mod 10 < 10" by simp
    then show ?thesis using 1 False digit_char_set [of "n mod 10"]
      by (subst str_nat.simps) simp
  qed
qed

lemma str_nat_length: "length (str_nat n) = 1 \<longleftrightarrow> n < 10"
proof (cases "n < 10")
  case True
  then show ?thesis by (subst str_nat.simps) simp
next
  case False
  have "str_nat (n div 10) \<noteq> []" by (subst str_nat.simps) simp
  then show ?thesis using False by (subst str_nat.simps) simp
qed

lemma str_nat_inj: "str_nat a = str_nat b \<Longrightarrow> a = b"
proof (induction a arbitrary: b rule: str_nat.induct)
  case (1 n)
  show ?case
  proof (cases "n < 10")
    case True
    then have "length (str_nat b) = 1" using 1(2) str_nat_length [of n] by simp
    then have b: "b < 10" using str_nat_length [of b] by simp
    have "[digit_char n] = [digit_char b]"
      using 1(2) True b by (simp add: str_nat.simps [of n] str_nat.simps [of b])
    then show ?thesis using digit_char_inj True b by simp
  next
    case False
    then have "length (str_nat b) \<noteq> 1" using 1(2) str_nat_length [of n] by simp
    then have b: "\<not> b < 10" using str_nat_length [of b] by simp
    have "str_nat (n div 10) @ [digit_char (n mod 10)] = str_nat (b div 10) @ [digit_char (b mod 10)]"
      using 1(2) False b by (simp add: str_nat.simps [of n] str_nat.simps [of b])
    then have e: "str_nat (n div 10) = str_nat (b div 10)" and d: "digit_char (n mod 10) = digit_char (b mod 10)"
      by simp_all
    have "n div 10 = b div 10" using 1(1) [OF False e] .
    moreover have "n mod 10 = b mod 10" using digit_char_inj [OF _ _ d] by simp
    ultimately show ?thesis by (metis div_mult_mod_eq)
  qed
qed

lemma str_nat_nonempty: "str_nat n \<noteq> []"
  by (subst str_nat.simps) simp

lemma str_int_inj: "str_int a = str_int b \<Longrightarrow> a = b"
proof -
  assume e: "str_int a = str_int b"
  have nd: "CHR ''-'' \<notin> set (str_nat k)" for k using str_nat_set [of k] by auto
  have hd_in: "hd (str_nat k) \<in> set (str_nat k)" for k using str_nat_nonempty by simp
  consider "a < 0" "b < 0" | "\<not> a < 0" "\<not> b < 0" | "a < 0" "\<not> b < 0" | "\<not> a < 0" "b < 0" by blast
  then show ?thesis
  proof cases
    case 1
    then have "str_nat (nat (- a)) = str_nat (nat (- b))" using e by (simp add: str_int_def)
    then have "nat (- a) = nat (- b)" by (rule str_nat_inj)
    then show ?thesis using 1 by simp
  next
    case 2
    then have "str_nat (nat a) = str_nat (nat b)" using e by (simp add: str_int_def)
    then have "nat a = nat b" by (rule str_nat_inj)
    then show ?thesis using 2 by simp
  next
    case 3
    then have "CHR ''-'' # str_nat (nat (- a)) = str_nat (nat b)" using e by (simp add: str_int_def)
    then have "CHR ''-'' \<in> set (str_nat (nat b))" by (metis list.set_intros(1))
    then show ?thesis using nd by simp
  next
    case 4
    then have "CHR ''-'' # str_nat (nat (- b)) = str_nat (nat a)" using e by (simp add: str_int_def)
    then have "CHR ''-'' \<in> set (str_nat (nat a))" by (metis list.set_intros(1))
    then show ?thesis using nd by simp
  qed
qed

lemma str_int_no_colon: "CHR '':'' \<notin> set (str_int i)"
  using str_nat_set [of "nat i"] str_nat_set [of "nat (- i)"] by (auto simp: str_int_def)

lemma str_nat_no_colon: "CHR '':'' \<notin> set (str_nat n)"
  using str_nat_set [of n] by auto

lemma fingerprint_inj:
  "fingerprint f = fingerprint g \<longleftrightarrow> st_mtime_ns f = st_mtime_ns g \<and> st_size f = st_size g"
proof
  assume "fingerprint f = fingerprint g"
  then have "str_int (st_mtime_ns f) @ CHR '':'' # str_nat (st_size f)
           = str_int (st_mtime_ns g) @ CHR '':'' # str_nat (st_size g)"
    by (simp add: fingerprint_def)
  then have "str_int (st_mtime_ns f) = str_int (st_mtime_ns g) \<and> str_nat (st_size f) = str_nat (st_size g)"
    by (rule append_Cons_eq_iff [THEN iffD1, OF str_int_no_colon str_nat_no_colon])
  then show "st_mtime_ns f = st_mtime_ns g \<and> st_size f = st_size g"
    using str_int_inj str_nat_inj by blast
next
  assume "st_mtime_ns f = st_mtime_ns g \<and> st_size f = st_size g"
  then show "fingerprint f = fingerprint g" by (simp add: fingerprint_def)
qed

section \<open>Properties of the batch planner\<close>

lemma ceil_bounds_nat:
  fixes a b :: nat
  assumes "0 < b"
  shows "a \<le> (a + b - 1) div b * b" and "(a + b - 1) div b * b < a + b"
  using assms div_times_less_eq_dividend [of "a + b - 1" b] dividend_less_div_times [of b "a + b - 1"]
  by linarith+

lemma ceil_div_eq: "0 < b \<Longrightarrow> ceil_div a b = Inr ((a + b - 1) div b)"
proof -
  assume b: "0 < b"
  define q where "q = (a + b - 1) div b"
  have 1: "a \<le> q * b" and 2: "q * b < a + b"
    using ceil_bounds_nat [OF b, of a] by (simp_all add: q_def)
  have rb: "0 < real b" using b by simp
  have "real a \<le> real q * real b" using 1 by (metis of_nat_le_iff of_nat_mult)
  then have up: "real a / real b \<le> real q" using rb by (simp add: pos_divide_le_eq)
  have "real q * real b < real a + real b" using 2 by (metis of_nat_less_iff of_nat_mult of_nat_add)
  then have "(real q - 1) * real b < real a" by (simp add: algebra_simps)
  then have lo: "real q - 1 < real a / real b" using rb by (simp add: pos_less_divide_eq)
  have "\<lceil>real a / real b\<rceil> = int q"
    by (rule ceiling_unique) (use lo up in simp_all)
  then show ?thesis using b by (simp add: ceil_div_def q_def)
qed

lemma concat_slices: "0 < k \<Longrightarrow> concat (slices k xs) = xs"
proof (induction k xs rule: slices.induct)
  case (1 k xs)
  then show ?case by (subst slices.simps) auto
qed

lemma slices_nonempty: "s \<in> set (slices k xs) \<Longrightarrow> s \<noteq> []"
proof (induction k xs rule: slices.induct)
  case (1 k xs)
  from 1(2) have "k \<noteq> 0" "xs \<noteq> []" "s = take k xs \<or> s \<in> set (slices k (drop k xs))"
    by (subst (asm) slices.simps, simp split: if_splits)+
  then show ?case using 1(1) by auto
qed

lemma slices_Nil: "slices k [] = []"
  by (subst slices.simps) simp

lemma slices_count: "0 < k \<Longrightarrow> length (slices k xs) * k < length xs + k"
proof (induction k xs rule: slices.induct)
  case (1 k xs)
  show ?case
  proof (cases "xs = []")
    case True
    then show ?thesis using 1(2) by (simp add: slices_Nil)
  next
    case False
    then have L: "length (slices k xs) = Suc (length (slices k (drop k xs)))"
      using 1(2) by (subst slices.simps) simp
    show ?thesis
    proof (cases "k \<le> length xs")
      case True
      have "length (slices k (drop k xs)) * k < length (drop k xs) + k"
        using 1 False by simp
      then show ?thesis using True L by simp
    next
      case False
      then have "drop k xs = []" by simp
      then show ?thesis using L \<open>xs \<noteq> []\<close> by (simp add: slices_Nil)
    qed
  qed
qed

lemma split_across_Inr_iff:
  "(\<exists>sl. split_across n xs = Inr sl) \<longleftrightarrow> 0 < n \<and> xs \<noteq> []"
proof (cases "n = 0")
  case True
  then show ?thesis by (simp add: split_across_def ceil_div_def)
next
  case False
  then have n: "0 < n" by simp
  have "(length xs + n - 1) div n = 0 \<longleftrightarrow> xs = []"
    using ceil_bounds_nat(1) [OF n, of "length xs"] n by (auto simp: div_eq_0_iff)
  then show ?thesis using n by (auto simp: split_across_def ceil_div_eq range_slices_def)
qed

lemma split_across_Inr:
  assumes "split_across n xs = Inr sl"
  shows "concat sl = xs" and "length sl \<le> n" and "[] \<notin> set sl" and "sl \<noteq> []"
proof -
  have n: "0 < n" and xs: "xs \<noteq> []" using assms split_across_Inr_iff [of n xs] by auto
  define q where "q = (length xs + n - 1) div n"
  have qb: "length xs \<le> q * n" using ceil_bounds_nat(1) [OF n, of "length xs"] by (simp add: q_def)
  have q: "0 < q" using qb xs by (cases q) auto
  have sl: "sl = slices q xs"
    using assms n q by (simp add: split_across_def ceil_div_eq range_slices_def q_def)
  show "concat sl = xs" using q by (simp add: sl concat_slices)
  show "[] \<notin> set sl" using slices_nonempty [of "[]" q xs] by (auto simp: sl)
  show "sl \<noteq> []" using xs q by (subst sl, subst slices.simps) simp
  have "length sl * q < length xs + q" using slices_count [OF q, of xs] by (simp add: sl)
  also have "\<dots> \<le> q * n + q" using qb by simp
  also have "\<dots> = Suc n * q" by simp
  finally have "length sl * q < Suc n * q" .
  then have "length sl < Suc n" by (rule mult_less_cancel2 [THEN iffD1, THEN conjunct2])
  then show "length sl \<le> n" by simp
qed

lemma zip_batches_Inr:
  assumes "zip_batches n w zips (bs0, dc0) = Inr (bs, dc)"
  shows "\<exists>new. bs = bs0 @ new
           \<and> concat (map files_paths new) = []
           \<and> filter is_files_item new = []
           \<and> (\<forall>zp. concat (map (zip_slice zp) new) = concat (map (entries_of w) (filter (\<lambda>z. z = zp) zips)))
           \<and> (\<forall>zp. length (filter (is_zip_item zp) new) \<le> n * length (filter (\<lambda>z. z = zp) zips))
           \<and> (\<forall>b \<in> set new. \<exists>zp es. b = Zip_entries zp es \<and> zp \<in> set zips \<and> es \<noteq> [])
           \<and> length new \<le> n * length zips
           \<and> dc = dc0 + sum_list (map (\<lambda>z. length (entries_of w z)) zips)"
  using assms
proof (induction zips arbitrary: bs0 dc0)
  case Nil
  then show ?case by simp
next
  case (Cons z zips)
  from Cons.prems obtain names sl where
    o: "open_namelist w z = Inr names" and
    s: "split_across n (file_entries names) = Inr sl" and
    r: "zip_batches n w zips (bs0 @ map (Zip_entries z) sl, dc0 + length (file_entries names)) = Inr (bs, dc)"
    by (auto simp: Let_def split: sum.splits)
  have e: "entries_of w z = file_entries names" by (simp add: entries_of_def o)
  note sp = split_across_Inr [OF s]
  from Cons.IH [OF r] obtain new where
    n1: "bs = (bs0 @ map (Zip_entries z) sl) @ new" and
    n2: "concat (map files_paths new) = []" and
    n2': "filter is_files_item new = []" and
    n3: "\<forall>zp. concat (map (zip_slice zp) new) = concat (map (entries_of w) (filter (\<lambda>z. z = zp) zips))" and
    n3': "\<forall>zp. length (filter (is_zip_item zp) new) \<le> n * length (filter (\<lambda>z. z = zp) zips)" and
    n4: "\<forall>b \<in> set new. \<exists>zp es. b = Zip_entries zp es \<and> zp \<in> set zips \<and> es \<noteq> []" and
    n5: "length new \<le> n * length zips" and
    n6: "dc = dc0 + length (file_entries names) + sum_list (map (\<lambda>z. length (entries_of w z)) zips)"
    by auto
  let ?new = "map (Zip_entries z) sl @ new"
  have a: "concat (map files_paths (map (Zip_entries z) sl)) = []" by (induction sl) auto
  have a': "filter is_files_item (map (Zip_entries z) sl) = []" by (induction sl) auto
  have b: "concat (map (zip_slice zp) (map (Zip_entries z) sl)) = (if z = zp then concat sl else [])" for zp
    by (induction sl) auto
  have b': "length (filter (is_zip_item zp) (map (Zip_entries z) sl)) = (if z = zp then length sl else 0)" for zp
    by (induction sl) auto
  have c1: "bs = bs0 @ ?new" using n1 by simp
  have c2: "concat (map files_paths ?new) = []" using a n2 by simp
  have c2': "filter is_files_item ?new = []" using a' n2' by simp
  have c3: "\<forall>zp. concat (map (zip_slice zp) ?new) = concat (map (entries_of w) (filter (\<lambda>z. z = zp) (z # zips)))"
    using n3 b sp(1) e by simp
  have c3': "\<forall>zp. length (filter (is_zip_item zp) ?new) \<le> n * length (filter (\<lambda>z. z = zp) (z # zips))"
  proof
    fix zp
    show "length (filter (is_zip_item zp) ?new) \<le> n * length (filter (\<lambda>z. z = zp) (z # zips))"
      using n3' [rule_format, of zp] b' [of zp] sp(2) by simp
  qed
  have c4: "\<forall>b \<in> set ?new. \<exists>zp es. b = Zip_entries zp es \<and> zp \<in> set (z # zips) \<and> es \<noteq> []"
    using n4 sp(3) by auto
  have c5: "length ?new \<le> n * length (z # zips)" using n5 sp(2) by simp
  have c6: "dc = dc0 + sum_list (map (\<lambda>z. length (entries_of w z)) (z # zips))" using n6 e by simp
  show ?case using c1 c2 c2' c3 c3' c4 c5 c6 by blast
qed

lemma zip_batches_returns_iff:
  "(\<exists>r. zip_batches n w zips acc = Inr r) \<longleftrightarrow>
     (\<forall>z \<in> set zips. 0 < n \<and> (\<exists>names. open_namelist w z = Inr names \<and> file_entries names \<noteq> []))"
proof (induction zips arbitrary: acc)
  case Nil
  then show ?case by simp
next
  case (Cons z zips)
  obtain bs0 dc0 where acc: "acc = (bs0, dc0)" by (cases acc)
  show ?case
  proof (cases "open_namelist w z")
    case (Inl e)
    then show ?thesis by (simp add: acc)
  next
    case (Inr names)
    show ?thesis
    proof (cases "split_across n (file_entries names)")
      case (Inl e)
      then have "\<not> (0 < n \<and> file_entries names \<noteq> [])"
        using split_across_Inr_iff [of n "file_entries names"] by auto
      then show ?thesis using Inl Inr by (auto simp: acc)
    next
      case (Inr sl)
      then have "0 < n \<and> file_entries names \<noteq> []"
        using split_across_Inr_iff [of n "file_entries names"] by auto
      then show ?thesis using Inr \<open>open_namelist w z = Inr names\<close> Cons.IH by (simp add: acc)
    qed
  qed
qed

lemma filter_eq_distinct: "distinct xs \<Longrightarrow> x \<in> set xs \<Longrightarrow> filter (\<lambda>z. z = x) xs = [x]"
  by (induction xs) (auto simp: filter_empty_conv)

section \<open>Evaluation on the example volume\<close>

lemma file_sel [simp]:
  "is_file (regular_file m s)" "st_mtime_ns (regular_file m s) = m" "st_size (regular_file m s) = s"
  "namelist (regular_file m s) = Inl (BadZipFile ''File is not a zip file'')"
  "is_file (zip_file m s ns)" "st_mtime_ns (zip_file m s ns) = m" "st_size (zip_file m s ns) = s"
  "namelist (zip_file m s ns) = Inr ns"
  by (simp_all add: regular_file_def zip_file_def)

lemma ex_fingerprints:
  "fingerprint (regular_file 100 10) = ''100:10''"
  "fingerprint (regular_file 200 20) = ''200:20''"
  "fingerprint (zip_file 300 30 ns) = ''300:30''"
  by (simp_all add: fingerprint_def str_int_def str_nat.simps digit_char_def)

lemma ex_scan: "fst (scan False ex_world) = [''/data/rag/docs/b.txt'', ''/data/rag/docs/c.zip'']"
  by (simp add: scan_def on_status_def load_manifest_def ex_world_def ex_entries_def ex_fingerprints
        docs_path_def DOCS_DIR_def)

lemmas ex_eval = ex_world_def ex_entries_def ex_files_def
  lookup_path_def docs_path_def DOCS_DIR_def endswith_def open_namelist_def file_entries_def
  split_across_def ceil_div_eq range_slices_def slices.simps build_batches_n_def

lemma ex_build: "build_batches_n 2 ex_world ex_files =
   Inr ([Files [''/data/rag/docs/a.txt''], Files [''/data/rag/docs/b.txt''],
         Zip_entries ''/data/rag/docs/c.zip'' [''d/x.txt'', ''y.pdf''],
         Zip_entries ''/data/rag/docs/c.zip'' [''z.txt'']], 5)"
  by (simp add: ex_eval)

text \<open>
  The partition of claim C1, on the inputs for which the planner returns: the path lists
  of the \<open>files\<close> items, concatenated in order, are the non-archive input files, and
  for every archive the entry slices of its items, concatenated in order, are the
  archive's non-directory entries (once per occurrence of the archive in the input). With
  an input without repetition no path is repeated and each archive's slices give its
  entry list exactly. No item is empty, and no item has another type. This holds for every
  number of batches.
\<close>

theorem build_batches_partition:
  assumes "build_batches_n n_batches w files = Inr (batches, doc_count)"
  shows "concat (map files_paths batches) = filter (\<lambda>f. \<not> endswith f ''.zip'') files
       \<and> (\<forall>zp. concat (map (zip_slice zp) batches)
                = concat (map (entries_of w) (filter (\<lambda>z. z = zp) (filter (\<lambda>f. endswith f ''.zip'') files))))
       \<and> (distinct files \<longrightarrow>
            distinct (concat (map files_paths batches)) \<and>
            (\<forall>zp \<in> set files. endswith zp ''.zip'' \<longrightarrow>
               (\<exists>names. open_namelist w zp = Inr names \<and>
                  concat (map (zip_slice zp) batches) = file_entries names)))
       \<and> (\<forall>b \<in> set batches. case b of Files ps \<Rightarrow> ps \<noteq> [] | Zip_entries zp es \<Rightarrow> es \<noteq> [] | Unknown t \<Rightarrow> False)"
proof -
  let ?regular = "filter (\<lambda>f. \<not> endswith f ''.zip'') files"
  let ?zips = "filter (\<lambda>f. endswith f ''.zip'') files"
  obtain bs0 dc0 where
    z: "zip_batches n_batches w ?zips (bs0, dc0) = Inr (batches, doc_count)" and
    b0: "concat (map files_paths bs0) = ?regular" and
    b1: "\<forall>zp. concat (map (zip_slice zp) bs0) = []" and
    b2: "\<forall>b \<in> set bs0. \<exists>ps. b = Files ps \<and> ps \<noteq> []"
  proof (cases "?regular = []")
    case True
    then have "zip_batches n_batches w ?zips ([], 0) = Inr (batches, doc_count)"
      using assms by (simp add: build_batches_n_def)
    then show ?thesis using that [of "[]" 0] True by simp
  next
    case False
    then obtain sl where s: "split_across n_batches ?regular = Inr sl"
      and r: "zip_batches n_batches w ?zips (map Files sl, length ?regular) = Inr (batches, doc_count)"
      using assms by (auto simp: build_batches_n_def Let_def split: sum.splits)
    note sp = split_across_Inr [OF s]
    have 1: "concat (map files_paths (map Files sl)) = concat sl" by (induction sl) auto
    have 2: "concat (map (zip_slice zp) (map Files sl)) = []" for zp by (induction sl) auto
    show ?thesis using that [OF r] 1 2 sp by auto
  qed
  from zip_batches_Inr [OF z] obtain new where
    n1: "batches = bs0 @ new" and
    n2: "concat (map files_paths new) = []" and
    n3: "\<forall>zp. concat (map (zip_slice zp) new) = concat (map (entries_of w) (filter (\<lambda>z. z = zp) ?zips))" and
    n4: "\<forall>b \<in> set new. \<exists>zp es. b = Zip_entries zp es \<and> zp \<in> set ?zips \<and> es \<noteq> []"
    by blast
  have opened: "\<exists>names. open_namelist w zp = Inr names" if "zp \<in> set ?zips" for zp
    using zip_batches_returns_iff [of n_batches w ?zips "(bs0, dc0)"] z that by auto
  have c1: "concat (map files_paths batches) = ?regular" using n1 n2 b0 by simp
  have c2: "\<forall>zp. concat (map (zip_slice zp) batches) = concat (map (entries_of w) (filter (\<lambda>z. z = zp) ?zips))"
    using n1 n3 b1 by simp
  have c3: "distinct files \<longrightarrow>
            distinct (concat (map files_paths batches)) \<and>
            (\<forall>zp \<in> set files. endswith zp ''.zip'' \<longrightarrow>
               (\<exists>names. open_namelist w zp = Inr names \<and>
                  concat (map (zip_slice zp) batches) = file_entries names))"
  proof (intro impI conjI ballI)
    assume d: "distinct files"
    show "distinct (concat (map files_paths batches))" using c1 d by simp
    fix zp assume zp: "zp \<in> set files" "endswith zp ''.zip''"
    then have m: "zp \<in> set ?zips" by simp
    have dz: "distinct ?zips" using d by simp
    obtain names where o: "open_namelist w zp = Inr names" using opened [OF m] by blast
    have "concat (map (zip_slice zp) batches) = entries_of w zp"
      using c2 filter_eq_distinct [OF dz m] by simp
    then show "\<exists>names. open_namelist w zp = Inr names \<and>
                  concat (map (zip_slice zp) batches) = file_entries names"
      using o by (simp add: entries_of_def)
  qed
  have c4: "\<forall>b \<in> set batches. case b of Files ps \<Rightarrow> ps \<noteq> [] | Zip_entries zp es \<Rightarrow> es \<noteq> [] | Unknown t \<Rightarrow> False"
    using n1 n4 b2 by auto
  show ?thesis using c1 c2 c3 c4 by blast
qed

theorem build_batches_partition_witness:
  "build_batches_n 2 ex_world ex_files =
     Inr ([Files [''/data/rag/docs/a.txt''], Files [''/data/rag/docs/b.txt''],
           Zip_entries ''/data/rag/docs/c.zip'' [''d/x.txt'', ''y.pdf''],
           Zip_entries ''/data/rag/docs/c.zip'' [''z.txt'']], 5)
   \<and> concat (map files_paths
         [Files [''/data/rag/docs/a.txt''], Files [''/data/rag/docs/b.txt''],
          Zip_entries ''/data/rag/docs/c.zip'' [''d/x.txt'', ''y.pdf''],
          Zip_entries ''/data/rag/docs/c.zip'' [''z.txt'']])
       = [''/data/rag/docs/a.txt'', ''/data/rag/docs/b.txt'']
   \<and> concat (map (zip_slice ''/data/rag/docs/c.zip'')
         [Files [''/data/rag/docs/a.txt''], Files [''/data/rag/docs/b.txt''],
          Zip_entries ''/data/rag/docs/c.zip'' [''d/x.txt'', ''y.pdf''],
          Zip_entries ''/data/rag/docs/c.zip'' [''z.txt'']])
       = [''d/x.txt'', ''y.pdf'', ''z.txt'']"
  using build_batches_partition [OF ex_build]
  by (simp add: ex_eval)

lemma build_batches_returns_iff:
  "(\<exists>r. build_batches_n n w files = Inr r) \<longleftrightarrow>
     (files = [] \<or> 0 < n) \<and>
     (\<forall>zp \<in> set files. endswith zp ''.zip'' \<longrightarrow>
        (\<exists>names. open_namelist w zp = Inr names \<and> file_entries names \<noteq> []))"
proof -
  let ?regular = "filter (\<lambda>f. \<not> endswith f ''.zip'') files"
  let ?zips = "filter (\<lambda>f. endswith f ''.zip'') files"
  have z: "(\<exists>r. zip_batches n w ?zips acc = Inr r) \<longleftrightarrow>
     (\<forall>zp \<in> set files. endswith zp ''.zip'' \<longrightarrow>
        0 < n \<and> (\<exists>names. open_namelist w zp = Inr names \<and> file_entries names \<noteq> []))" for acc
    unfolding zip_batches_returns_iff by auto
  have fe: "files = [] \<longleftrightarrow> ?regular = [] \<and> ?zips = []"
    by (auto simp: filter_empty_conv)
  show ?thesis
  proof (cases "?regular = []")
    case True
    have "build_batches_n n w files = zip_batches n w ?zips ([], 0)"
      using True by (simp add: build_batches_n_def)
    then show ?thesis using z [of "([], 0)"] fe True by (auto simp: filter_empty_conv)
  next
    case False
    show ?thesis
    proof (cases "n = 0")
      case True
      then have "\<nexists>sl. split_across n ?regular = Inr sl"
        using split_across_Inr_iff [of n ?regular] by simp
      then have "\<nexists>r. build_batches_n n w files = Inr r"
        using False by (auto simp: build_batches_n_def Let_def split: sum.splits)
      then show ?thesis using True False fe by auto
    next
      case n: False
      then obtain sl where s: "split_across n ?regular = Inr sl"
        using split_across_Inr_iff [of n ?regular] False by auto
      have "build_batches_n n w files = zip_batches n w ?zips (map Files sl, length ?regular)"
        using False s by (simp add: build_batches_n_def)
      then show ?thesis using z [of "(map Files sl, length ?regular)"] n by auto
    qed
  qed
qed

text \<open>
  Claim C1 is stated for every input file list. The planner returns exactly when there is
  no file or at least one batch, and every archive opens and has a file entry. For an
  archive without file entries the chunk size is \<open>ceil(0 / n) = 0\<close> and \<open>range\<close>
  raises: with one regular file and such an archive the planner produces no work item at
  all, where the regular files are guarded by \<open>if regular\<close>.
\<close>

theorem build_batches_empty_archive:
  "build_batches ex_empty_zip_world [''/data/rag/docs/a.txt'', ''/data/rag/docs/empty.zip'']
     = Inl (ValueError ''range() arg 3 must not be zero'')"
  by (simp add: build_batches_def build_batches_n_def N_WORKERS_def WORKERS_PER_GPU_def
        ex_empty_zip_world_def lookup_path_def docs_path_def DOCS_DIR_def endswith_def
        open_namelist_def file_entries_def split_across_def ceil_div_eq range_slices_def slices.simps)

text \<open>
  Claim C5 says that the planner never produces more work items than
  \<open>N_WORKERS * WORKERS_PER_GPU\<close>. With the configured 32 batches, one regular file and one
  archive of 32 entries give 33 items: the regular files and each archive are split across
  all batches separately.
\<close>

theorem build_batches_count_counterexample:
  "map_sum id (\<lambda>r. length (fst r)) (build_batches ex_big_world ex_big_files) = Inr 33
   \<and> N_WORKERS * WORKERS_PER_GPU = 32"
  by (simp add: build_batches_def N_WORKERS_def WORKERS_PER_GPU_def ex_big_world_def ex_big_files_def
        lookup_path_def docs_path_def DOCS_DIR_def endswith_def open_namelist_def file_entries_def
        split_across_def ceil_div_eq range_slices_def slices.simps build_batches_n_def)

text \<open>
  Claim C5, amended. Whenever the planner returns, the \<open>files\<close> items are at most
  \<open>n_batches\<close>, the items of an archive are at most \<open>n_batches\<close> for each occurrence of
  the archive in the input, and all items together are at most \<open>n_batches\<close> times one more
  than the number of archives.
\<close>

theorem build_batches_count:
  assumes "build_batches_n n_batches w files = Inr (batches, doc_count)"
  shows "length batches \<le> n_batches * (1 + length (filter (\<lambda>f. endswith f ''.zip'') files))
       \<and> length (filter is_files_item batches) \<le> n_batches
       \<and> (\<forall>zp. length (filter (is_zip_item zp) batches)
                \<le> n_batches * length (filter (\<lambda>z. z = zp) (filter (\<lambda>f. endswith f ''.zip'') files)))"
proof -
  let ?regular = "filter (\<lambda>f. \<not> endswith f ''.zip'') files"
  let ?zips = "filter (\<lambda>f. endswith f ''.zip'') files"
  obtain bs0 dc0 where
    z: "zip_batches n_batches w ?zips (bs0, dc0) = Inr (batches, doc_count)" and
    b0: "length bs0 \<le> n_batches" and
    b1: "\<forall>zp. filter (is_zip_item zp) bs0 = []"
  proof (cases "?regular = []")
    case True
    then have "zip_batches n_batches w ?zips ([], 0) = Inr (batches, doc_count)"
      using assms by (simp add: build_batches_n_def)
    then show ?thesis using that [of "[]" 0] by simp
  next
    case False
    then obtain sl where s: "split_across n_batches ?regular = Inr sl"
      and r: "zip_batches n_batches w ?zips (map Files sl, length ?regular) = Inr (batches, doc_count)"
      using assms by (auto simp: build_batches_n_def Let_def split: sum.splits)
    have 2: "filter (is_zip_item zp) (map Files sl) = []" for zp by (induction sl) auto
    show ?thesis using that [OF r] 2 split_across_Inr(2) [OF s] by simp
  qed
  from zip_batches_Inr [OF z] obtain new where
    n1: "batches = bs0 @ new" and
    n2: "filter is_files_item new = []" and
    n3: "\<forall>zp. length (filter (is_zip_item zp) new) \<le> n_batches * length (filter (\<lambda>z. z = zp) ?zips)" and
    n4: "length new \<le> n_batches * length ?zips"
    by blast
  have c1: "length batches \<le> n_batches * (1 + length ?zips)" using n1 n4 b0 by simp
  have "length (filter is_files_item batches) = length (filter is_files_item bs0)" using n1 n2 by simp
  also have "\<dots> \<le> length bs0" by (rule length_filter_le)
  finally have c2: "length (filter is_files_item batches) \<le> n_batches" using b0 by simp
  have c3: "\<forall>zp. length (filter (is_zip_item zp) batches) \<le> n_batches * length (filter (\<lambda>z. z = zp) ?zips)"
    using n1 n3 b1 by simp
  show ?thesis using c1 c2 c3 by blast
qed

theorem build_batches_count_witness:
  "build_batches_n 2 ex_world ex_files =
     Inr ([Files [''/data/rag/docs/a.txt''], Files [''/data/rag/docs/b.txt''],
           Zip_entries ''/data/rag/docs/c.zip'' [''d/x.txt'', ''y.pdf''],
           Zip_entries ''/data/rag/docs/c.zip'' [''z.txt'']], 5)
   \<and> length [Files [''/data/rag/docs/a.txt''], Files [''/data/rag/docs/b.txt''],
           Zip_entries ''/data/rag/docs/c.zip'' [''d/x.txt'', ''y.pdf''],
           Zip_entries ''/data/rag/docs/c.zip'' [''z.txt'']]
       \<le> 2 * (1 + length (filter (\<lambda>f. endswith f ''.zip'') ex_files))"
  using build_batches_count [OF ex_build] ex_build
  by (simp add: ex_files_def endswith_def)

section \<open>Properties of the scanner\<close>

lemma docs_path_inj: "docs_path a = docs_path b \<longleftrightarrow> a = b"
  by (simp add: docs_path_def)

lemma scan_state: "snd (scan force w) = on_status ''scanning documents...'' w"
  by (simp add: scan_def Let_def split: option.splits)

lemma scan_fst:
  assumes "docs_dir w = Some entries"
  shows "fst (scan force w) =
     map (\<lambda>(name, f). docs_path name)
       (filter (\<lambda>(name, f). force \<or> map_of (load_manifest w) name \<noteq> Some (fingerprint f))
          (sort_key fst (filter (\<lambda>(name, f). is_file f) entries)))"
  using assms by (simp add: scan_def Let_def on_status_def load_manifest_def)

lemma scan_set:
  assumes "docs_dir w = Some entries"
  shows "set (fst (scan force w)) =
     {docs_path n | n f. (n, f) \<in> set entries \<and> is_file f \<and>
        (force \<or> map_of (load_manifest w) n \<noteq> Some (fingerprint f))}"
  unfolding scan_fst [OF assms] by (simp only: set_map set_filter set_sort) force

lemma scan_member:
  assumes "docs_dir w = Some entries" and "distinct (map fst entries)"
    and "(name, f) \<in> set entries" and "is_file f"
  shows "docs_path name \<in> set (fst (scan force w)) \<longleftrightarrow>
           force \<or> map_of (load_manifest w) name \<noteq> Some (fingerprint f)"
proof -
  have u: "f' = f" if "(name, f') \<in> set entries" for f'
    using assms(2,3) that by (rule_tac eq_key_imp_eq_value)
  show ?thesis
  proof
    assume "docs_path name \<in> set (fst (scan force w))"
    then obtain n f' where "docs_path name = docs_path n" "(n, f') \<in> set entries"
      "force \<or> map_of (load_manifest w) n \<noteq> Some (fingerprint f')"
      unfolding scan_set [OF assms(1)] by blast
    then show "force \<or> map_of (load_manifest w) name \<noteq> Some (fingerprint f)"
      using u [of f'] by (simp add: docs_path_inj)
  next
    assume "force \<or> map_of (load_manifest w) name \<noteq> Some (fingerprint f)"
    then show "docs_path name \<in> set (fst (scan force w))"
      unfolding scan_set [OF assms(1)] using assms(3,4) by blast
  qed
qed

text \<open>
  Claim C7. For a file of the document directory, the scan selects its path exactly when
  \<open>force\<close> is set or the manifest has no fingerprint for its name or a fingerprint other
  than its current one. When the manifest holds the fingerprint of an earlier state of the
  file, a scan without \<open>force\<close> selects it exactly when its modification time or its
  size differs from that state; with \<open>force\<close> it is selected whatever the manifest
  says. The scan leaves the volume as it was: the only change is the status message.
\<close>

theorem scan_selects_iff:
  assumes "docs_dir w = Some entries" and "distinct (map fst entries)"
    and "(name, f) \<in> set entries" and "is_file f"
  shows "(docs_path name \<in> set (fst (scan force w)) \<longleftrightarrow>
            force \<or> map_of (load_manifest w) name = None
                  \<or> (\<exists>fp. map_of (load_manifest w) name = Some fp \<and> fp \<noteq> fingerprint f))
       \<and> (\<forall>g. map_of (load_manifest w) name = Some (fingerprint g) \<longrightarrow>
            (docs_path name \<in> set (fst (scan False w)) \<longleftrightarrow>
               st_mtime_ns f \<noteq> st_mtime_ns g \<or> st_size f \<noteq> st_size g))
       \<and> docs_path name \<in> set (fst (scan True w))
       \<and> snd (scan force w) = w\<lparr>events := events w @ [Status ''scanning documents...'']\<rparr>"
proof -
  note m = scan_member [OF assms]
  have e: "(map_of (load_manifest w) name \<noteq> Some (fingerprint f)) \<longleftrightarrow>
        (map_of (load_manifest w) name = None
           \<or> (\<exists>fp. map_of (load_manifest w) name = Some fp \<and> fp \<noteq> fingerprint f))"
    by (cases "map_of (load_manifest w) name") simp_all
  have a: "docs_path name \<in> set (fst (scan force w)) \<longleftrightarrow>
            force \<or> map_of (load_manifest w) name = None
                  \<or> (\<exists>fp. map_of (load_manifest w) name = Some fp \<and> fp \<noteq> fingerprint f)"
    unfolding m [of force] e ..
  have b: "\<forall>g. map_of (load_manifest w) name = Some (fingerprint g) \<longrightarrow>
            (docs_path name \<in> set (fst (scan False w)) \<longleftrightarrow>
               st_mtime_ns f \<noteq> st_mtime_ns g \<or> st_size f \<noteq> st_size g)"
  proof (intro allI impI)
    fix g assume g: "map_of (load_manifest w) name = Some (fingerprint g)"
    have "docs_path name \<in> set (fst (scan False w)) \<longleftrightarrow> fingerprint g \<noteq> fingerprint f"
      unfolding m [of False] g by simp
    also have "\<dots> \<longleftrightarrow> \<not> (st_mtime_ns g = st_mtime_ns f \<and> st_size g = st_size f)"
      by (simp only: fingerprint_inj)
    also have "\<dots> \<longleftrightarrow> st_mtime_ns f \<noteq> st_mtime_ns g \<or> st_size f \<noteq> st_size g"
      by (simp only: de_Morgan_conj eq_commute)
    finally show "docs_path name \<in> set (fst (scan False w)) \<longleftrightarrow>
               st_mtime_ns f \<noteq> st_mtime_ns g \<or> st_size f \<noteq> st_size g" .
  qed
  have c: "docs_path name \<in> set (fst (scan True w))" unfolding m [of True] by simp
  have d: "snd (scan force w) = w\<lparr>events := events w @ [Status ''scanning documents...'']\<rparr>"
    by (simp add: scan_state on_status_def)
  show ?thesis by (intro conjI a b c d)
qed

theorem scan_selects_iff_witness:
  "docs_dir ex_world = Some ex_entries \<and> distinct (map fst ex_entries)
   \<and> (''b.txt'', regular_file 200 20) \<in> set ex_entries \<and> is_file (regular_file 200 20)
   \<and> map_of (load_manifest ex_world) ''b.txt'' = Some (fingerprint (regular_file 150 20))
   \<and> docs_path ''b.txt'' \<in> set (fst (scan False ex_world))
   \<and> (''a.txt'', regular_file 100 10) \<in> set ex_entries
   \<and> map_of (load_manifest ex_world) ''a.txt'' = Some (fingerprint (regular_file 100 10))
   \<and> docs_path ''a.txt'' \<notin> set (fst (scan False ex_world))
   \<and> docs_path ''a.txt'' \<in> set (fst (scan True ex_world))"
proof -
  have h1: "docs_dir ex_world = Some ex_entries" by (simp add: ex_world_def)
  have h2: "distinct (map fst ex_entries)" by (simp add: ex_entries_def)
  have hb: "(''b.txt'', regular_file 200 20) \<in> set ex_entries" by (simp add: ex_entries_def)
  have ha: "(''a.txt'', regular_file 100 10) \<in> set ex_entries" by (simp add: ex_entries_def)
  have fb: "is_file (regular_file 200 20)" and fa: "is_file (regular_file 100 10)" by simp_all
  have f150: "fingerprint (regular_file 150 20) = ''150:20''"
    by (simp add: fingerprint_def str_int_def str_nat.simps digit_char_def)
  have mb: "map_of (load_manifest ex_world) ''b.txt'' = Some (fingerprint (regular_file 150 20))"
    by (simp add: load_manifest_def ex_world_def f150)
  have ma: "map_of (load_manifest ex_world) ''a.txt'' = Some (fingerprint (regular_file 100 10))"
    by (simp add: load_manifest_def ex_world_def ex_fingerprints)
  note tb = scan_selects_iff [OF h1 h2 hb fb, of False]
  note ta = scan_selects_iff [OF h1 h2 ha fa, of False]
  have sb: "docs_path ''b.txt'' \<in> set (fst (scan False ex_world))"
    using tb [THEN conjunct2, THEN conjunct1, rule_format, OF mb] by simp
  have sa: "docs_path ''a.txt'' \<notin> set (fst (scan False ex_world))"
    using ta [THEN conjunct2, THEN conjunct1, rule_format, OF ma] by simp
  have st: "docs_path ''a.txt'' \<in> set (fst (scan True ex_world))"
    using ta [THEN conjunct2, THEN conjunct2, THEN conjunct1] .
  show ?thesis by (intro conjI h1 h2 hb fb mb sb ha ma sa st)
qed

section \<open>Properties of the embedding worker\<close>

lemma lookup_path_flush [simp]: "lookup_path (flush_to_chroma p w) = lookup_path w"
  by (rule ext) (simp add: flush_to_chroma_def lookup_path_def)

lemma embed_requests_total:
  assumes "\<forall>texts. \<exists>vs. tei_post env texts = Inr vs"
  shows "\<exists>vs. embed_requests env batches acc = Inr vs"
proof (induction batches arbitrary: acc)
  case Nil
  show ?case by simp
next
  case (Cons b batches)
  obtain vs where "tei_post env b = Inr vs" using assms by blast
  then show ?case using Cons.IH by simp
qed

lemma chunk_and_embed_total:
  assumes "\<forall>texts. \<exists>vs. tei_post env texts = Inr vs"
  shows "\<exists>r. chunk_and_embed env docs p = Inr r"
proof (cases "get_nodes env docs = []")
  case True
  then show ?thesis by (simp add: chunk_and_embed_def)
next
  case False
  obtain vs where "embed_texts env (map (\<lambda>(node_id, text, meta). text) (get_nodes env docs)) = Inr vs"
    using embed_requests_total [OF assms] unfolding embed_texts_def by blast
  then show ?thesis using False by (simp add: chunk_and_embed_def Let_def)
qed

lemma zip_loop_total:
  assumes "\<forall>texts. \<exists>vs. tei_post env texts = Inr vs"
  shows "\<exists>r. zip_loop env zp names st = Inr r"
proof (induction names arbitrary: st)
  case Nil
  show ?case by (cases st) simp
next
  case (Cons name names)
  obtain batch tot p where st: "st = (batch, tot, p)" by (metis prod_cases3)
  show ?case
  proof (cases "read_zip_entry env zp name")
    case None
    then show ?thesis using Cons.IH by (simp add: st)
  next
    case (Some t)
    let ?b = "batch @ [(t, [(''source'', path_name zp), (''filename'', name)])]"
    obtain c p' where ce: "chunk_and_embed env ?b p = Inr (c, p')"
      using chunk_and_embed_total [OF assms, of ?b p] by force
    show ?thesis using Some ce Cons.IH by (simp add: st Let_def del: blank.simps)
  qed
qed

lemma zip_loop_filter:
  "zip_loop env zp names st
     = zip_loop env zp (filter (\<lambda>name. \<not> blank (read_zip_entry env zp name)) names) st"
proof (induction names arbitrary: st)
  case Nil
  show ?case by simp
next
  case (Cons name names)
  obtain batch tot p where st: "st = (batch, tot, p)" by (metis prod_cases3)
  show ?case
  proof (cases "read_zip_entry env zp name")
    case None
    then show ?thesis using Cons.IH by (simp add: st)
  next
    case (Some t)
    show ?thesis
    proof (cases "blank (Some t)")
      case True
      then show ?thesis using Some Cons.IH by (simp add: st del: blank.simps)
    next
      case False
      then show ?thesis using Some Cons.IH by (simp add: st Let_def del: blank.simps split: sum.splits)
    qed
  qed
qed

lemma write_manifest_zip:
  assumes "lookup_path w zp = Some f"
  shows "write_manifest wid (Zip_entries zp es) w =
     Inr (w\<lparr>worker_manifests := AList.update wid [(path_name zp, fingerprint f)] (worker_manifests w)\<rparr>)"
  using assms by (simp add: write_manifest_def)

lemma takeWhile_upto: "c \<notin> set xs \<Longrightarrow> takeWhile (\<lambda>x. x \<noteq> c) (xs @ c # ys) = xs"
  by (induction xs) auto

lemma path_name_docs_path: "CHR ''/'' \<notin> set name \<Longrightarrow> path_name (docs_path name) = name"
proof -
  assume "CHR ''/'' \<notin> set name"
  then have "takeWhile (\<lambda>c. c \<noteq> CHR ''/'') (rev name @ CHR ''/'' # rev DOCS_DIR) = rev name"
    using takeWhile_upto [of "CHR ''/''" "rev name" "rev DOCS_DIR"] by simp
  then show ?thesis by (simp add: path_name_def docs_path_def)
qed

text \<open>
  Claim C10. For a \<open>zip_entries\<close> item the worker's manifest is the single entry of the
  archive: its file name with the fingerprint of the whole archive file, whatever slice of
  entries the item holds. Every worker that completes such an item therefore writes this
  entry, which does not depend on the other items of the archive.
\<close>

theorem zip_slice_records_whole_archive:
  assumes "lookup_path w zip_path = Some f"
  shows "write_manifest worker_id (Zip_entries zip_path entries) w =
           Inr (w\<lparr>worker_manifests :=
                  AList.update worker_id [(path_name zip_path, fingerprint f)] (worker_manifests w)\<rparr>)
       \<and> (\<forall>env r w'. embed env (Zip_entries zip_path entries) worker_id w = (Inr r, w') \<longrightarrow>
             map_of (worker_manifests w') worker_id = Some [(path_name zip_path, fingerprint f)])
       \<and> (\<forall>name. CHR ''/'' \<notin> set name \<longrightarrow> path_name (docs_path name) = name)"
proof (intro conjI allI impI)
  show "write_manifest worker_id (Zip_entries zip_path entries) w =
           Inr (w\<lparr>worker_manifests :=
                  AList.update worker_id [(path_name zip_path, fingerprint f)] (worker_manifests w)\<rparr>)"
    by (rule write_manifest_zip [OF assms])
next
  fix env r w'
  assume e: "embed env (Zip_entries zip_path entries) worker_id w = (Inr r, w')"
  then obtain tot p where
    "embed_zip_entries env w zip_path entries = Inr (tot, p)"
    by (auto simp: embed_def split: sum.splits)
  moreover have "lookup_path (flush_to_chroma p w) zip_path = Some f" for p
    using assms by simp
  ultimately have "w' = (flush_to_chroma p w)\<lparr>worker_manifests :=
        AList.update worker_id [(path_name zip_path, fingerprint f)]
          (worker_manifests (flush_to_chroma p w))\<rparr>"
    using e by (simp add: embed_def Let_def write_manifest_zip)
  then show "map_of (worker_manifests w') worker_id = Some [(path_name zip_path, fingerprint f)]"
    by (simp add: update_conv')
next
  fix name assume "CHR ''/'' \<notin> set name"
  then show "path_name (docs_path name) = name" by (rule path_name_docs_path)
qed

lemma ex_lookup_zip:
  "lookup_path ex_world ''/data/rag/docs/c.zip'' = Some (zip_file 300 30 [''d/'', ''d/x.txt'', ''y.pdf'', ''z.txt''])"
  by (simp add: lookup_path_def ex_world_def ex_entries_def docs_path_def DOCS_DIR_def)

theorem zip_slice_records_whole_archive_witness:
  "lookup_path ex_world ''/data/rag/docs/c.zip'' = Some (zip_file 300 30 [''d/'', ''d/x.txt'', ''y.pdf'', ''z.txt''])
   \<and> write_manifest 3 (Zip_entries ''/data/rag/docs/c.zip'' [''z.txt'']) ex_world =
       Inr (ex_world\<lparr>worker_manifests := [(3, [(''c.zip'', ''300:30'')])]\<rparr>)"
proof -
  have n: "path_name ''/data/rag/docs/c.zip'' = ''c.zip''" by (simp add: path_name_def)
  have m: "worker_manifests ex_world = []" by (simp add: ex_world_def)
  show ?thesis
    using zip_slice_records_whole_archive [OF ex_lookup_zip, of 3 "[''z.txt'']", THEN conjunct1]
    by (simp add: ex_lookup_zip n m ex_fingerprints)
qed

text \<open>
  The part of claim C8 on archive entries: a failed extraction or blank text skips the
  entry, so the call on a slice is the call on the entries that extract to non-blank text,
  and when the archive opens and the embedding server answers the call returns
  \<open>(worker_id, chunk count)\<close>.
\<close>

theorem zip_entries_skip_unreadable:
  assumes "\<forall>texts. \<exists>vs. tei_post env texts = Inr vs"
    and "lookup_path w zip_path = Some f" and "namelist f = Inr names"
  shows "(\<exists>tot w'. embed env (Zip_entries zip_path entries) worker_id w = (Inr (worker_id, tot), w'))
       \<and> embed env (Zip_entries zip_path entries) worker_id w =
           embed env (Zip_entries zip_path
                        (filter (\<lambda>name. \<not> blank (read_zip_entry env zip_path name)) entries))
             worker_id w"
proof
  have o: "open_namelist w zip_path = Inr names" using assms(2,3) by (simp add: open_namelist_def)
  obtain batch tot p where l: "zip_loop env zip_path entries ([], 0, []) = Inr (batch, tot, p)"
    using zip_loop_total [OF assms(1), of zip_path entries "([], 0, [])"] by (metis prod_cases3)
  obtain tot' p' where z: "embed_zip_entries env w zip_path entries = Inr (tot', p')"
  proof (cases "batch = []")
    case True
    then show ?thesis using that o l by (simp add: embed_zip_entries_def)
  next
    case False
    obtain c q where "chunk_and_embed env batch p = Inr (c, q)"
      using chunk_and_embed_total [OF assms(1), of batch p] by force
    then show ?thesis using that o l False by (simp add: embed_zip_entries_def)
  qed
  have wm: "write_manifest worker_id (Zip_entries zip_path entries) (flush_to_chroma p' w) =
      Inr ((flush_to_chroma p' w)\<lparr>worker_manifests :=
          AList.update worker_id [(path_name zip_path, fingerprint f)]
            (worker_manifests (flush_to_chroma p' w))\<rparr>)"
    by (rule write_manifest_zip) (simp add: assms(2))
  show "\<exists>tot w'. embed env (Zip_entries zip_path entries) worker_id w = (Inr (worker_id, tot), w')"
    using z wm by (simp add: embed_def Let_def)
next
  let ?good = "filter (\<lambda>name. \<not> blank (read_zip_entry env zip_path name)) entries"
  have z: "embed_zip_entries env w zip_path entries = embed_zip_entries env w zip_path ?good"
    unfolding embed_zip_entries_def
    by (simp only: zip_loop_filter [of env zip_path entries "([], 0, [])"])
  show "embed env (Zip_entries zip_path entries) worker_id w =
           embed env (Zip_entries zip_path ?good) worker_id w"
  proof (cases "embed_zip_entries env w zip_path ?good")
    case (Inl e)
    then show ?thesis by (simp add: embed_def z)
  next
    case (Inr r)
    obtain tot p where "r = (tot, p)" by (cases r)
    then show ?thesis using Inr by (simp add: embed_def z write_manifest_def Let_def)
  qed
qed

lemma lookup_path_frame [simp]:
  "lookup_path (w\<lparr>collection := c\<rparr>) = lookup_path w"
  "lookup_path (w\<lparr>worker_manifests := m\<rparr>) = lookup_path w"
  "lookup_path (w\<lparr>events := ev\<rparr>) = lookup_path w"
  "lookup_path (w\<lparr>pending := pd\<rparr>) = lookup_path w"
  "lookup_path (w\<lparr>manifest_file := mf\<rparr>) = lookup_path w"
  by (rule ext, simp add: lookup_path_def)+

lemmas worker_eval = embed_def embed_zip_entries_def load_file_def chunk_and_embed_def
  embed_texts_def TEI_BATCH_SIZE_def EMBED_BATCH_SIZE_def UPSERT_BATCH_def slices.simps
  read_zip_entry_def is_space_def code_points_def flush_to_chroma_def upsert_def write_manifest_def
  open_namelist_def Let_def

lemma ex_good_entries:
  "filter (\<lambda>name. \<not> blank (read_zip_entry ex_env zp name)) [''d/x.txt'', ''y.pdf'', ''z.txt'']
     = [''d/x.txt'']"
  by (simp add: ex_env_def read_zip_entry_def is_space_def code_points_def)

lemma ex_embed_zip:
  "fst (embed ex_env (Zip_entries ''/data/rag/docs/c.zip'' [''d/x.txt'']) 1 ex_world) = Inr (1, 1)"
  by (simp add: ex_env_def worker_eval ex_lookup_zip path_name_def)

theorem zip_entries_skip_unreadable_witness:
  "(\<forall>texts. \<exists>vs. tei_post ex_env texts = Inr vs)
   \<and> lookup_path ex_world ''/data/rag/docs/c.zip''
       = Some (zip_file 300 30 [''d/'', ''d/x.txt'', ''y.pdf'', ''z.txt''])
   \<and> read_zip_entry ex_env ''/data/rag/docs/c.zip'' ''y.pdf'' = None
   \<and> read_zip_entry ex_env ''/data/rag/docs/c.zip'' ''z.txt'' = Some (code_points ''  '')
   \<and> embed ex_env (Zip_entries ''/data/rag/docs/c.zip'' [''d/x.txt'', ''y.pdf'', ''z.txt'']) 1 ex_world
       = embed ex_env (Zip_entries ''/data/rag/docs/c.zip'' [''d/x.txt'']) 1 ex_world
   \<and> fst (embed ex_env (Zip_entries ''/data/rag/docs/c.zip'' [''d/x.txt'', ''y.pdf'', ''z.txt'']) 1 ex_world)
       = Inr (1, 1)"
proof -
  have h1: "\<forall>texts. \<exists>vs. tei_post ex_env texts = Inr vs" by (simp add: ex_env_def)
  have h3: "namelist (zip_file 300 30 [''d/'', ''d/x.txt'', ''y.pdf'', ''z.txt''])
              = Inr [''d/'', ''d/x.txt'', ''y.pdf'', ''z.txt'']" by simp
  have r1: "read_zip_entry ex_env ''/data/rag/docs/c.zip'' ''y.pdf'' = None"
    by (simp add: ex_env_def read_zip_entry_def)
  have r2: "read_zip_entry ex_env ''/data/rag/docs/c.zip'' ''z.txt'' = Some (code_points ''  '')"
    by (simp add: ex_env_def read_zip_entry_def)
  have e: "embed ex_env (Zip_entries ''/data/rag/docs/c.zip'' [''d/x.txt'', ''y.pdf'', ''z.txt'']) 1 ex_world
       = embed ex_env (Zip_entries ''/data/rag/docs/c.zip'' [''d/x.txt'']) 1 ex_world"
    using zip_entries_skip_unreadable [OF h1 ex_lookup_zip h3,
        of "[''d/x.txt'', ''y.pdf'', ''z.txt'']" 1, THEN conjunct2]
    by (simp only: ex_good_entries)
  have f: "fst (embed ex_env (Zip_entries ''/data/rag/docs/c.zip'' [''d/x.txt'', ''y.pdf'', ''z.txt'']) 1 ex_world)
       = Inr (1, 1)"
    by (simp only: e ex_embed_zip)
  show ?thesis by (intro conjI h1 ex_lookup_zip r1 r2 e f)
qed

text \<open>
  The part of claim C8 on regular files, when the reader returns for every file of the
  item: the call returns \<open>(worker_id, chunk count)\<close>, and a file for which the reader
  returns no document (it skips a file that its format reader cannot parse) adds nothing.
\<close>

lemma embed_files_total:
  assumes "\<forall>texts. \<exists>vs. tei_post env texts = Inr vs"
    and "\<forall>p \<in> set paths. \<exists>docs. load_data env p = Inr docs"
  shows "\<exists>r. embed_files env paths acc = Inr r"
  using assms(2)
proof (induction paths arbitrary: acc)
  case Nil
  then show ?case by simp
next
  case (Cons p ps)
  obtain tot pending_chunks where a: "acc = (tot, pending_chunks)" by (cases acc)
  obtain docs where l: "load_data env p = Inr docs" using Cons.prems by auto
  obtain cnt q where c: "chunk_and_embed env
      (map (\<lambda>(text, meta). (text, AList.update ''source'' (path_name p) meta)) docs) pending_chunks
        = Inr (cnt, q)"
    using chunk_and_embed_total [OF assms(1)] by force
  have "\<exists>r. embed_files env ps (tot + cnt, q) = Inr r" using Cons by simp
  then show ?case using a l c by (simp add: load_file_def)
qed

lemma stat_paths_total:
  "\<forall>p \<in> set ps. lookup_path w p \<noteq> None \<Longrightarrow> \<exists>m. stat_paths w ps acc = Inr m"
  by (induction ps arbitrary: acc) auto

text \<open>
  When the reader returns for every path of a \<open>files\<close> item, the embedding server
  answers and the paths exist, the call returns.
\<close>

lemma files_item_returns:
  assumes "\<forall>texts. \<exists>vs. tei_post env texts = Inr vs"
    and "\<forall>p \<in> set paths. \<exists>docs. load_data env p = Inr docs"
    and "\<forall>p \<in> set paths. lookup_path w p \<noteq> None"
  shows "\<exists>tot w'. embed env (Files paths) worker_id w = (Inr (worker_id, tot), w')"
proof -
  obtain tot p where e: "embed_files env paths (0, []) = Inr (tot, p)"
    using embed_files_total [OF assms(1,2)] by force
  have "\<forall>q \<in> set paths. lookup_path (flush_to_chroma p w) q \<noteq> None"
    using assms(3) by (simp add: lookup_path_flush)
  then obtain m where "stat_paths (flush_to_chroma p w) paths [] = Inr m"
    using stat_paths_total by blast
  then show ?thesis using e by (simp add: embed_def write_manifest_def Let_def)
qed

lemma embed_files_skips_empty:
  assumes "get_nodes env [] = []" and "load_data env p = Inr []"
  shows "embed_files env (p # ps) acc = embed_files env ps acc"
  using assms by (cases acc) (simp add: load_file_def chunk_and_embed_def)

text \<open>
  Claim C8 says that an extraction failure is never fatal to the work item, for a regular
  file as for an archive entry. \<open>_read_zip_entry\<close> catches every exception of the
  extraction; \<open>_load_file\<close> catches none. The reader raises on a Word document, whose
  format reader cannot import its package; then the call on a \<open>files\<close> item that holds
  the document raises, returns no chunk count and writes nothing for the other file of
  the item, which alone is embedded as one chunk.
\<close>

theorem docx_file_fails_work_item:
  "load_data ex_docx_env ''/data/rag/docs/report.docx'' = Inl DOCX_ERROR
   \<and> embed ex_docx_env (Files [''/data/rag/docs/a.txt'', ''/data/rag/docs/report.docx'']) 0 ex_docx_world
       = (Inl DOCX_ERROR, ex_docx_world)
   \<and> fst (embed ex_docx_env (Files [''/data/rag/docs/a.txt'']) 0 ex_docx_world) = Inr (0, 1)"
  by (simp add: ex_docx_env_def ex_env_def worker_eval path_name_def endswith_def
       ex_docx_world_def lookup_path_def docs_path_def DOCS_DIR_def)

section \<open>Properties of the finalizer\<close>

lemma fmt_small:
  "fmt_commas 0 = ''0''" "str_nat 0 = ''0''" "str_nat 1 = ''1''" "str_nat 2 = ''2''"
  "fmt_commas 1 = ''1''" "fmt_commas 2 = ''2''"
  "str_nat (Suc 0) = ''1''" "str_nat (Suc (Suc 0)) = ''2''"
  by (simp_all add: fmt_commas_def str_nat.simps digit_char_def)

text \<open>
  The summary of the finalizer is determined by the staged files and the document
  directory alone: neither the flag nor the collection nor the manifest enters it.
\<close>

lemma merge_pkl_count:
  "snd (foldl merge_pkl acc rs) = snd acc + sum_list (map length rs)"
  by (induction rs arbitrary: acc) (simp_all add: merge_pkl_def)

lemma finalize_summary_determined:
  assumes "pending_files w = pending_files w'" and "docs_dir w = docs_dir w'"
  shows "fst (finalize_index force w) = fst (finalize_index force' w')"
  using assms by (simp add: finalize_index_def Let_def merge_pkl_count docs_manifest_def)

text \<open>
  Claim C9, amended. The finalizer reads only the flag, the staged files and the document
  directory. With no staged file it reports zero chunks and the number of files present,
  leaves the collection as it is (or empty under \<open>force\<close>) and writes the manifest of
  the directory, whether nothing was dispatched or every worker failed.
\<close>

theorem finalize_no_staged_output:
  assumes "pending_files w = []"
  shows "fst (finalize_index force w)
           = ''Indexed 0 chunks from '' @ str_nat (length (docs_manifest w)) @ '' file(s).''
       \<and> collection (snd (finalize_index force w)) = (if force then [] else collection w)
       \<and> manifest_file (snd (finalize_index force w)) = Some (docs_manifest w)"
  using assms by (simp add: finalize_index_def Let_def fmt_small)

lemma ex_indexed_manifest:
  "docs_manifest ex_indexed_world = [(''a.txt'', ''100:10''), (''b.txt'', ''200:20'')]"
  by (simp add: docs_manifest_def ex_indexed_world_def ex_fingerprints)

lemma ex_all_failed:
  "fan_out_results (staging_embed ex_down_env)
      [([''/data/rag/docs/a.txt''], 0), ([''/data/rag/docs/b.txt''], 1)] (0, 0) ex_indexed_world
     = ((0, 2), ex_indexed_world\<lparr>pending := Some []\<rparr>)"
  by (simp add: staging_embed_def ex_down_env_def ex_env_def pending_files_def ex_indexed_world_def
        endswith_def load_file_def embed_batch_def path_name_def)

text \<open>
  Claim C9 says that the finalizer tells "nothing changed" from "every worker failed".
  After two workers that both raise, no file is staged, and the finalizer returns the same
  summary and the same volume as on the volume where no worker ran.
\<close>

theorem finalize_same_result_counterexample:
  "fan_out_results (staging_embed ex_down_env)
      [([''/data/rag/docs/a.txt''], 0), ([''/data/rag/docs/b.txt''], 1)] (0, 0) ex_indexed_world
     = ((0, 2), ex_indexed_world\<lparr>pending := Some []\<rparr>)
   \<and> finalize_index False (ex_indexed_world\<lparr>pending := Some []\<rparr>)
     = finalize_index False ex_indexed_world
   \<and> fst (finalize_index False ex_indexed_world) = ''Indexed 0 chunks from 2 file(s).''"
proof -
  have p: "pending_files (ex_indexed_world\<lparr>pending := Some []\<rparr>) = []"
          "pending_files ex_indexed_world = []"
    by (simp_all add: pending_files_def ex_indexed_world_def)
  have d: "docs_manifest (ex_indexed_world\<lparr>pending := Some []\<rparr>) = docs_manifest ex_indexed_world"
    by (simp add: docs_manifest_def)
  have e: "finalize_index False (ex_indexed_world\<lparr>pending := Some []\<rparr>)
     = finalize_index False ex_indexed_world"
    by (simp add: finalize_index_def Let_def p d)
  have s: "fst (finalize_index False ex_indexed_world) = ''Indexed 0 chunks from 2 file(s).''"
    by (simp add: finalize_index_def Let_def p ex_indexed_manifest fmt_small)
  show ?thesis by (intro conjI ex_all_failed e s)
qed

theorem finalize_no_staged_output_witness:
  "pending_files ex_indexed_world = []
   \<and> fst (finalize_index True ex_indexed_world) = ''Indexed 0 chunks from 2 file(s).''
   \<and> collection (snd (finalize_index True ex_indexed_world)) = []"
proof -
  have p: "pending_files ex_indexed_world = []"
    by (simp add: pending_files_def ex_indexed_world_def)
  show ?thesis
    using finalize_no_staged_output [OF p, of True] p
    by (simp add: ex_indexed_manifest fmt_small)
qed

section \<open>Properties of the client\<close>

lemma fan_out_results_outcomes:
  "fst (fan_out_results m items (tc, fl) w) =
     (tc + sum_list (map chunks_of (fan_out_outcomes m items (tc, fl) w)),
      fl + length (filter isl (fan_out_outcomes m items (tc, fl) w)))"
proof (induction items arbitrary: tc fl w)
  case Nil
  show ?case by simp
next
  case (Cons item items)
  obtain b wid where item: "item = (b, wid)" by (cases item)
  obtain res w1 where r: "m b wid w = (res, w1)" by (cases "m b wid w")
  show ?case
  proof (cases res)
    case (Inl e)
    then show ?thesis using r Cons.IH [of tc "fl + 1" w1] by (simp add: item)
  next
    case (Inr p)
    obtain wid' cnt where "p = (wid', cnt)" by (cases p)
    then show ?thesis
      using r Inr Cons.IH [of "tc + cnt" fl "on_status (worker_done wid' cnt (tc + cnt)) w1"]
      by (simp add: item)
  qed
qed

lemma list_docs_on_status [simp]: "list_docs (on_status msg w) = list_docs w"
  by (simp add: list_docs_def on_status_def)

lemma split_across_rag:
  "xs \<noteq> [] \<Longrightarrow> \<exists>batches. split_across RAG_N_WORKERS xs = Inr batches"
  using split_across_Inr_iff [of RAG_N_WORKERS xs] by (simp add: RAG_N_WORKERS_def)

text \<open>
  Claim C2, amended. When the client has files to index and at least one worker raises,
  the other workers still run, and \<open>_run\<close> returns the message of \<open>_fan_out\<close>: the
  number of workers that raised, the chunks of the others, and the advice to run again.
  The volume it leaves is the one after the last worker: the finalizer is not called.
  In the pipeline, \<open>_embed\<close> returns the document count of the planner whatever the
  workers return, and keeps no count of failures.
\<close>

theorem run_failed_worker_skips_finalize:
  assumes "list_docs w \<noteq> []"
  shows "(\<exists>batches. split_across RAG_N_WORKERS (list_docs w) = Inr batches \<and>
          (let items = zip batches [0..<length batches];
               w' = on_status (''embedding '' @ str_nat (length (list_docs w))
                       @ '' file(s) across GPU workers...'') (on_status ''scanning documents...'' w);
               outs = fan_out_outcomes embed_method items (0, 0) w'
           in filter isl outs \<noteq> [] \<longrightarrow>
                run embed_method force reload_fn w =
                  Inr (failed_message (length (filter isl outs)) (sum_list (map chunks_of outs)),
                       snd (fan_out_results embed_method items (0, 0) w'))))
       \<and> (\<forall>env files v batches doc_count.
             build_batches v files = Inr (batches, doc_count) \<longrightarrow>
             (\<exists>v'. pipeline_embed env files v = Inr (doc_count, v')))"
proof (intro conjI allI impI)
  obtain batches where b: "split_across RAG_N_WORKERS (list_docs w) = Inr batches"
    using split_across_rag [OF assms] by blast
  let ?items = "zip batches [0..<length batches]"
  let ?w' = "on_status (''embedding '' @ str_nat (length (list_docs w))
                       @ '' file(s) across GPU workers...'') (on_status ''scanning documents...'' w)"
  let ?outs = "fan_out_outcomes embed_method ?items (0, 0) ?w'"
  have "run embed_method force reload_fn w =
          Inr (failed_message (length (filter isl ?outs)) (sum_list (map chunks_of ?outs)),
               snd (fan_out_results embed_method ?items (0, 0) ?w'))"
    if f: "filter isl ?outs \<noteq> []"
  proof -
    obtain tc fl w1 where r: "fan_out_results embed_method ?items (0, 0) ?w' = ((tc, fl), w1)"
      by (metis surj_pair)
    have "(tc, fl) = (sum_list (map chunks_of ?outs), length (filter isl ?outs))"
      using fan_out_results_outcomes [of embed_method ?items 0 0 ?w'] r by simp
    then have tc: "tc = sum_list (map chunks_of ?outs)" and fl: "fl = length (filter isl ?outs)"
      by simp_all
    have nz: "fl \<noteq> 0" using f fl by simp
    have "fan_out (list_docs w) embed_method RAG_N_WORKERS ?w' = Inr (Some (failed_message fl tc), w1)"
      using b r nz by (simp add: fan_out_def)
    then show ?thesis using assms r tc fl by (simp add: run_def Let_def)
  qed
  then show "\<exists>batches. split_across RAG_N_WORKERS (list_docs w) = Inr batches \<and>
          (let items = zip batches [0..<length batches];
               w' = on_status (''embedding '' @ str_nat (length (list_docs w))
                       @ '' file(s) across GPU workers...'') (on_status ''scanning documents...'' w);
               outs = fan_out_outcomes embed_method items (0, 0) w'
           in filter isl outs \<noteq> [] \<longrightarrow>
                run embed_method force reload_fn w =
                  Inr (failed_message (length (filter isl outs)) (sum_list (map chunks_of outs)),
                       snd (fan_out_results embed_method items (0, 0) w')))"
    using b by (auto simp: Let_def)
next
  fix env :: env and files v batches doc_count
  assume "build_batches v files = Inr (batches, doc_count)"
  then show "\<exists>v'. pipeline_embed env files v = Inr (doc_count, v')"
    by (simp add: pipeline_embed_def)
qed

lemma fmt_suc: "fmt_commas (Suc 0) = ''1''" "fmt_commas (Suc (Suc 0)) = ''2''"
  by (simp_all add: fmt_commas_def fmt_small)

lemma ex_new_list:
  "list_docs ex_new_world = [''/data/rag/docs/a.txt'', ''/data/rag/docs/b.txt'']"
  by (simp add: list_docs_def ex_new_world_def docs_path_def DOCS_DIR_def)

lemma ex_new_split:
  "split_across RAG_N_WORKERS [''/data/rag/docs/a.txt'', ''/data/rag/docs/b.txt'']
     = Inr [[''/data/rag/docs/a.txt''], [''/data/rag/docs/b.txt'']]"
  by (simp add: split_across_def ceil_div_eq RAG_N_WORKERS_def range_slices_def slices.simps)

lemma ex_new_fan_out:
  "fan_out [''/data/rag/docs/a.txt'', ''/data/rag/docs/b.txt''] (staging_embed ex_env) RAG_N_WORKERS
     (on_status ''embedding 2 file(s) across GPU workers...''
        (on_status ''scanning documents...'' ex_new_world))
   = Inr (Some ''Embedding failed for 1 worker(s). 1 chunks succeeded. Run `reindex` again to retry.'',
          ex_after_workers)"
  by (simp add: ex_new_split fan_out_def upt_rec [of 0] upt_rec [of 1]
        staging_embed_def ex_env_def pending_files_def endswith_def load_file_def embed_batch_def
        path_name_def on_status_def ex_new_world_def worker_done_def failed_message_def fmt_small fmt_suc
        ex_after_workers_def)

lemma ex_new_run:
  "run (staging_embed ex_env) False True ex_new_world =
     Inr (''Embedding failed for 1 worker(s). 1 chunks succeeded. Run `reindex` again to retry.'',
          ex_after_workers)"
  by (simp add: run_def Let_def ex_new_list ex_new_fan_out fmt_small)

text \<open>
  Claim C2 says that the finalizer still merges the output of the other workers. With two
  files and a reader that raises on the second, the client returns the failure message,
  the output of the first worker stays staged, the collection stays empty and no manifest
  is written.
\<close>

theorem run_failed_worker_counterexample:
  "run (staging_embed ex_env) False True ex_new_world =
     Inr (''Embedding failed for 1 worker(s). 1 chunks succeeded. Run `reindex` again to retry.'',
          ex_after_workers)
   \<and> collection ex_after_workers = []
   \<and> manifest_file ex_after_workers = None
   \<and> pending ex_after_workers =
       Some [(0, [(''node:a.txt'', [1], code_points ''alpha beta'',
                   [(''file_path'', ''/data/rag/docs/a.txt''), (''source'', ''a.txt'')])])]
   \<and> events ex_after_workers =
       [Status ''scanning documents...'', Status ''embedding 2 file(s) across GPU workers...'',
        Status ''worker-0 done: 1 chunks (total: 1)'']"
  by (simp add: ex_new_run) (simp add: ex_after_workers_def ex_new_world_def)

theorem run_failed_worker_skips_finalize_witness:
  "list_docs ex_new_world \<noteq> []
   \<and> run (staging_embed ex_env) False True ex_new_world = Inr (failed_message 1 1, ex_after_workers)"
proof -
  define W where "W = on_status (''embedding '' @ str_nat (length (list_docs ex_new_world))
       @ '' file(s) across GPU workers...'') (on_status ''scanning documents...'' ex_new_world)"
  define items where "items = zip [[''/data/rag/docs/a.txt''], [''/data/rag/docs/b.txt'']]
       [0..<length [[''/data/rag/docs/a.txt''], [''/data/rag/docs/b.txt'']]]"
  have h: "list_docs ex_new_world \<noteq> []" by (simp add: ex_new_list)
  have s: "split_across RAG_N_WORKERS (list_docs ex_new_world)
       = Inr [[''/data/rag/docs/a.txt''], [''/data/rag/docs/b.txt'']]"
    by (simp add: ex_new_list ex_new_split)
  have o: "fan_out_outcomes (staging_embed ex_env) items (0, 0) W
       = [Inr (0, 1), Inl (ValueError ''cannot parse'')]"
    unfolding W_def items_def
    by (simp add: upt_rec [of 0] upt_rec [of 1] ex_new_list
        staging_embed_def ex_env_def pending_files_def endswith_def load_file_def embed_batch_def
        path_name_def on_status_def ex_new_world_def)
  obtain batches where b: "split_across RAG_N_WORKERS (list_docs ex_new_world) = Inr batches"
    and imp: "filter isl (fan_out_outcomes (staging_embed ex_env)
                 (zip batches [0..<length batches]) (0, 0) W) \<noteq> [] \<longrightarrow>
       run (staging_embed ex_env) False True ex_new_world =
         Inr (failed_message
                (length (filter isl (fan_out_outcomes (staging_embed ex_env)
                   (zip batches [0..<length batches]) (0, 0) W)))
                (sum_list (map chunks_of (fan_out_outcomes (staging_embed ex_env)
                   (zip batches [0..<length batches]) (0, 0) W))),
              snd (fan_out_results (staging_embed ex_env) (zip batches [0..<length batches]) (0, 0) W))"
    using run_failed_worker_skips_finalize [OF h, of "staging_embed ex_env" False True]
    unfolding Let_def W_def by blast
  have bs: "batches = [[''/data/rag/docs/a.txt''], [''/data/rag/docs/b.txt'']]" using b s by simp
  have r: "run (staging_embed ex_env) False True ex_new_world =
         Inr (failed_message 1 1, snd (fan_out_results (staging_embed ex_env) items (0, 0) W))"
    using imp unfolding bs items_def [symmetric] by (simp add: o)
  have "run (staging_embed ex_env) False True ex_new_world = Inr (failed_message 1 1, ex_after_workers)"
    using r ex_new_run by simp
  then show ?thesis using h by simp
qed

section \<open>Properties of the pipeline\<close>

lemma foldl_update_lookup:
  "distinct (map fst xs) \<Longrightarrow>
   map_of (foldl (\<lambda>manifest (name, f). AList.update name (g f) manifest) m0 xs) n
     = (case map_of xs n of Some f \<Rightarrow> Some (g f) | None \<Rightarrow> map_of m0 n)"
proof (induction xs arbitrary: m0)
  case Nil
  show ?case by simp
next
  case (Cons x xs)
  obtain k f where x: "x = (k, f)" by (cases x)
  have d: "distinct (map fst xs)" and k: "k \<notin> fst ` set xs" using Cons.prems by (simp_all add: x)
  have kn: "map_of xs k = None" using k by (simp add: map_of_eq_None_iff)
  show ?case using Cons.IH [OF d, of "AList.update k (g f) m0"] kn
    by (simp add: x update_conv' split: option.splits)
qed

lemma distinct_files_sorted:
  assumes "distinct (map fst entries)"
  shows "distinct (map fst (filter (\<lambda>(name, f). is_file f) (sort_key fst entries)))"
proof -
  let ?ys = "filter (\<lambda>(name, f). is_file f) (sort_key fst entries)"
  have "distinct entries" and "inj_on fst (set entries)" using assms by (simp_all add: distinct_map)
  moreover have "set ?ys \<subseteq> set entries" by auto
  ultimately have "distinct ?ys" and "inj_on fst (set ?ys)"
    by (simp_all add: inj_on_subset)
  then show ?thesis by (simp add: distinct_map)
qed

lemma docs_manifest_lookup:
  assumes "docs_dir w = Some entries" and "distinct (map fst entries)"
    and "(n, f) \<in> set entries" and "is_file f"
  shows "map_of (docs_manifest w) n = Some (fingerprint f)"
proof -
  let ?ys = "filter (\<lambda>(name, f). is_file f) (sort_key fst entries)"
  have d: "distinct (map fst ?ys)" by (rule distinct_files_sorted [OF assms(2)])
  have "(n, f) \<in> set ?ys" using assms(3,4) by simp
  then have "map_of ?ys n = Some f" using d by (rule_tac map_of_is_SomeI)
  then show ?thesis
    using foldl_update_lookup [OF d, of fingerprint "[]" n] assms(1)
    by (simp add: docs_manifest_def)
qed

lemma scan_nothing:
  assumes "manifest_file w = Some (docs_manifest w)" and "distinct_names w"
  shows "fst (scan False w) = []"
proof (cases "docs_dir w")
  case None
  then show ?thesis by (simp add: scan_def Let_def on_status_def)
next
  case (Some entries)
  have d: "distinct (map fst entries)" using assms(2) Some by (simp add: distinct_names_def)
  have "map_of (load_manifest w) n = Some (fingerprint f)"
    if "(n, f) \<in> set entries" "is_file f" for n f
    using docs_manifest_lookup [OF Some d that] assms(1) by (simp add: load_manifest_def)
  then have "set (fst (scan False w)) = {}"
    unfolding scan_set [OF Some] by auto
  then show ?thesis by simp
qed

lemma scan_on_status: "fst (scan force (on_status msg w)) = fst (scan force w)"
  by (simp add: scan_def Let_def on_status_def load_manifest_def split: option.splits)

lemma docs_manifest_cong: "docs_dir a = docs_dir b \<Longrightarrow> docs_manifest a = docs_manifest b"
  by (simp add: docs_manifest_def)

lemma distinct_names_cong: "docs_dir a = docs_dir b \<Longrightarrow> distinct_names a = distinct_names b"
  by (simp add: distinct_names_def)

lemma docs_dir_on_status [simp]: "docs_dir (on_status msg w) = docs_dir w"
  by (simp add: on_status_def)

lemma docs_dir_flush [simp]: "docs_dir (flush_to_chroma p w) = docs_dir w"
  by (simp add: flush_to_chroma_def)

lemma docs_dir_write_manifest: "write_manifest wid work w = Inr w' \<Longrightarrow> docs_dir w' = docs_dir w"
  by (auto simp: write_manifest_def split: sum.splits)

lemma docs_dir_embed: "docs_dir (snd (embed env work wid w)) = docs_dir w"
proof -
  obtain res w' where e: "embed env work wid w = (res, w')" by (cases "embed env work wid w")
  have "docs_dir w' = docs_dir w"
    using e docs_dir_write_manifest
    by (fastforce simp: embed_def Let_def split: sum.splits prod.splits)
  then show ?thesis using e by simp
qed

lemma docs_dir_embed_results: "docs_dir (snd (embed_results env items tot w)) = docs_dir w"
proof (induction items arbitrary: tot w)
  case Nil
  show ?case by simp
next
  case (Cons item items)
  obtain work wid where item: "item = (work, wid)" by (cases item)
  obtain res w1 where e: "embed env work wid w = (res, w1)" by (cases "embed env work wid w")
  have w1: "docs_dir w1 = docs_dir w" using docs_dir_embed [of env work wid w] e by simp
  show ?case
  proof (cases res)
    case (Inl x)
    then show ?thesis using e w1 Cons.IH [of tot w1] by (simp add: item)
  next
    case (Inr p)
    obtain wid' cnt where p: "p = (wid', cnt)" by (cases p)
    show ?thesis
      using e w1 Inr p Cons.IH [of "tot + cnt" "on_status (worker_done wid' cnt (tot + cnt)) w1"]
      by (simp add: item)
  qed
qed

lemma docs_dir_pipeline_embed:
  "pipeline_embed env files w = Inr (dc, w1) \<Longrightarrow> docs_dir w1 = docs_dir w"
  by (auto simp: pipeline_embed_def docs_dir_embed_results split: sum.splits)

lemma finalize_index_frame:
  "docs_dir (snd (finalize_index force w)) = docs_dir w"
  "manifest_file (snd (finalize_index force w)) = Some (docs_manifest w)"
  by (simp_all add: finalize_index_def Let_def)

lemma reload_index_frame [simp]:
  "docs_dir (reload_index r w) = docs_dir w"
  "manifest_file (reload_index r w) = manifest_file w"
  by (simp_all add: reload_index_def on_status_def)

lemma reindex_finalized:
  assumes "reindex env force reload_fn w = Inr (r, w1)" and "fst (scan force w) \<noteq> []"
  shows "manifest_file w1 = Some (docs_manifest w1)" and "docs_dir w1 = docs_dir w"
proof -
  obtain files w0 where s: "scan force w = (files, w0)" by (cases "scan force w")
  have w0: "w0 = on_status ''scanning documents...'' w" using scan_state [of force w] s by simp
  have f: "files \<noteq> []" using assms(2) s by simp
  obtain dc w2 where e: "pipeline_embed env files w0 = Inr (dc, w2)"
    using assms(1) s f by (auto simp: reindex_def split: sum.splits)
  let ?w3 = "on_status ''finalizing index...'' w2"
  have w1: "w1 = reload_index reload_fn (snd (finalize_index force ?w3))"
    using assms(1) s f e
    by (simp add: reindex_def pipeline_finalize_def pipeline_finalize_index_def split: prod.splits)
  have d: "docs_dir ?w3 = docs_dir w" using docs_dir_pipeline_embed [OF e] w0 by simp
  show dd: "docs_dir w1 = docs_dir w" using d by (simp add: w1 finalize_index_frame)
  have "manifest_file w1 = Some (docs_manifest ?w3)" by (simp add: w1 finalize_index_frame)
  then show "manifest_file w1 = Some (docs_manifest w1)"
    using docs_manifest_cong [of w1 ?w3] dd d by simp
qed

lemma ex_new_scan:
  "scan False ex_new_world =
     ([''/data/rag/docs/a.txt'', ''/data/rag/docs/b.txt''], on_status ''scanning documents...'' ex_new_world)"
  by (simp add: scan_def Let_def load_manifest_def on_status_def ex_new_world_def
        docs_path_def DOCS_DIR_def)

lemma ex_new_batches:
  "build_batches w [''/data/rag/docs/a.txt'', ''/data/rag/docs/b.txt'']
     = Inr ([Files [''/data/rag/docs/a.txt''], Files [''/data/rag/docs/b.txt'']], 2)"
  by (simp add: build_batches_def build_batches_n_def N_WORKERS_def WORKERS_PER_GPU_def endswith_def
        split_across_def ceil_div_eq range_slices_def slices.simps)

lemma ex_new_lookup:
  "lookup_path ex_new_world ''/data/rag/docs/a.txt'' = Some (regular_file 100 10)"
  by (simp add: lookup_path_def ex_new_world_def docs_path_def DOCS_DIR_def)

lemma lookup_path_on_status [simp]: "lookup_path (on_status msg w) = lookup_path w"
  by (simp add: on_status_def)

lemma ex_worker0:
  "lookup_path w ''/data/rag/docs/a.txt'' = Some (regular_file 100 10) \<Longrightarrow>
   embed ex_env (Files [''/data/rag/docs/a.txt'']) 0 w =
     (Inr (0, 1),
      w\<lparr>collection := AList.update ''node:a.txt''
              ([0], code_points ''alpha beta'', [(''file_path'', ''/data/rag/docs/a.txt''), (''source'', ''a.txt'')])
              (collection w),
        worker_manifests := AList.update 0 [(''a.txt'', ''100:10'')] (worker_manifests w)\<rparr>)"
  by (simp add: ex_env_def worker_eval path_name_def ex_fingerprints)

lemma ex_worker1:
  "embed ex_env (Files [''/data/rag/docs/b.txt'']) wid w = (Inl (ValueError ''cannot parse''), w)"
  by (simp add: ex_env_def worker_eval path_name_def)

lemma ex_new_manifest:
  "docs_dir w = docs_dir ex_new_world \<Longrightarrow>
   docs_manifest w = [(''a.txt'', ''100:10''), (''b.txt'', ''200:20'')]"
  by (simp add: docs_manifest_def ex_new_world_def ex_fingerprints)

lemma ex_embed_results:
  "embed_results ex_env
     [(Files [''/data/rag/docs/a.txt''], 0), (Files [''/data/rag/docs/b.txt''], Suc 0)] 0
     (on_status ''embedding 2 documents across 2 GPU workers...''
        (on_status ''scanning documents...'' ex_new_world))
   = (1, ex_new_world
       \<lparr>worker_manifests := [(0, [(''a.txt'', ''100:10'')])],
        collection := [(''node:a.txt'', [0], code_points ''alpha beta'',
                        [(''file_path'', ''/data/rag/docs/a.txt''), (''source'', ''a.txt'')])],
        events := [Status ''scanning documents...'',
                   Status ''embedding 2 documents across 2 GPU workers...'',
                   Status ''worker-0 done: 1 chunks (total: 1)'']\<rparr>)"
  by (simp add: ex_worker0 ex_new_lookup ex_worker1 worker_done_def fmt_small fmt_suc)
     (simp add: on_status_def ex_new_world_def fmt_small fmt_suc)

lemma ex_pipeline_embed:
  "pipeline_embed ex_env [''/data/rag/docs/a.txt'', ''/data/rag/docs/b.txt'']
     (on_status ''scanning documents...'' ex_new_world)
   = Inr (2, ex_new_world
       \<lparr>worker_manifests := [(0, [(''a.txt'', ''100:10'')])],
        collection := [(''node:a.txt'', [0], code_points ''alpha beta'',
                        [(''file_path'', ''/data/rag/docs/a.txt''), (''source'', ''a.txt'')])],
        events := [Status ''scanning documents...'',
                   Status ''embedding 2 documents across 2 GPU workers...'',
                   Status ''worker-0 done: 1 chunks (total: 1)'']\<rparr>)"
  by (simp add: pipeline_embed_def ex_new_batches upt_rec [of 0] upt_rec [of 1] fmt_small fmt_suc
        ex_embed_results del: embed_results.simps)

lemma ex_reindex:
  "reindex ex_env False False ex_new_world
     = Inr (''Indexed 0 chunks from 2 file(s).'', ex_retry_world)"
  by (simp add: reindex_def ex_new_scan ex_pipeline_embed pipeline_finalize_def
        pipeline_finalize_index_def finalize_index_def Let_def pending_files_def ex_new_manifest
        reload_index_def fmt_small fmt_suc)
     (simp add: on_status_def ex_new_world_def ex_retry_world_def fmt_small fmt_suc)

lemma load_manifest_on_status [simp]: "load_manifest (on_status msg w) = load_manifest w"
  by (simp add: load_manifest_def on_status_def)

lemma empty_result_on_status [simp]: "empty_result (on_status msg w) = empty_result w"
  by (cases "docs_dir w") (simp_all add: empty_result_def)

lemma reindex_nothing_to_do:
  assumes "fst (scan False w) = []"
  shows "reindex env False reload_fn w =
           Inr (empty_result w, w\<lparr>events := events w @ [Status ''scanning documents...'']\<rparr>)"
proof -
  have "scan False w = ([], on_status ''scanning documents...'' w)"
    using assms scan_state [of False w] by (cases "scan False w") simp
  then show ?thesis by (simp add: reindex_def) (simp add: on_status_def)
qed

text \<open>
  Claim C6. When a run without \<open>force\<close> has returned, a second run without \<open>force\<close>
  on the volume it left finds nothing to index: it returns the message for an empty
  worklist, and the volume is the same but for the status message of the scan. No worker
  runs, so no chunk is added, and the manifest is the one the first run left.
\<close>

theorem reindex_twice_no_change:
  assumes "reindex env False reload_fn w = Inr (r1, w1)" and "distinct_names w"
  shows "reindex env False reload_fn' w1 =
           Inr (empty_result w1, w1\<lparr>events := events w1 @ [Status ''scanning documents...'']\<rparr>)"
proof (rule reindex_nothing_to_do)
  show "fst (scan False w1) = []"
  proof (cases "fst (scan False w) = []")
    case True
    then have "w1 = on_status ''scanning documents...'' w"
      using assms(1) reindex_nothing_to_do [OF True, of env reload_fn] by (simp add: on_status_def)
    then show ?thesis using True by (simp add: scan_on_status)
  next
    case False
    note fin = reindex_finalized [OF assms(1) False]
    have "distinct_names w1" using assms(2) distinct_names_cong [OF fin(2)] by simp
    then show ?thesis using fin(1) by (rule_tac scan_nothing)
  qed
qed

lemma ex_new_distinct: "distinct_names ex_new_world"
  by (simp add: distinct_names_def ex_new_world_def)

lemma ex_retry_empty_result: "empty_result ex_retry_world = ALL_INDEXED"
  by (simp add: empty_result_def ex_retry_world_def ex_new_world_def load_manifest_def)

theorem reindex_twice_no_change_witness:
  "reindex ex_env False False ex_new_world = Inr (''Indexed 0 chunks from 2 file(s).'', ex_retry_world)
   \<and> distinct_names ex_new_world
   \<and> reindex ex_env False False ex_retry_world =
       Inr (ALL_INDEXED, ex_retry_world\<lparr>events := events ex_retry_world @ [Status ''scanning documents...'']\<rparr>)"
  using reindex_twice_no_change [OF ex_reindex ex_new_distinct, of False] ex_reindex ex_new_distinct
  by (simp add: ex_retry_empty_result)

section \<open>Retry after a failed work item\<close>

text \<open>A work item that raises leaves the worker manifests as they were.\<close>

lemma worker_manifests_flush [simp]:
  "worker_manifests (flush_to_chroma p w) = worker_manifests w"
  by (simp add: flush_to_chroma_def)

lemma embed_failed_no_manifest:
  assumes "fst (embed env work worker_id w) = Inl e"
  shows "worker_manifests (snd (embed env work worker_id w)) = worker_manifests w"
  using assms
  by (auto simp add: embed_def write_manifest_def Let_def split: sum.splits prod.splits work_item.splits)

lemma ex_zip_scan:
  "scan False ex_zip_world =
     ([''/data/rag/docs/c.zip''], on_status ''scanning documents...'' ex_zip_world)"
  by (simp add: scan_def Let_def load_manifest_def on_status_def ex_zip_world_def
        docs_path_def DOCS_DIR_def)

lemma ex_zip_lookup:
  "lookup_path ex_zip_world ''/data/rag/docs/c.zip'' = Some (zip_file 300 30 [''x.txt'', ''y.txt''])"
  by (simp add: lookup_path_def ex_zip_world_def docs_path_def DOCS_DIR_def)

lemma ex_zip_batches:
  "lookup_path w ''/data/rag/docs/c.zip'' = Some (zip_file 300 30 [''x.txt'', ''y.txt'']) \<Longrightarrow>
   build_batches w [''/data/rag/docs/c.zip'']
     = Inr ([Zip_entries ''/data/rag/docs/c.zip'' [''x.txt''],
             Zip_entries ''/data/rag/docs/c.zip'' [''y.txt'']], 2)"
  by (simp add: build_batches_def build_batches_n_def N_WORKERS_def WORKERS_PER_GPU_def endswith_def
        open_namelist_def file_entries_def zip_file_def
        split_across_def ceil_div_eq range_slices_def slices.simps)

lemma ex_zip_worker0:
  "lookup_path w ''/data/rag/docs/c.zip'' = Some (zip_file 300 30 [''x.txt'', ''y.txt'']) \<Longrightarrow>
   embed ex_flaky_env (Zip_entries ''/data/rag/docs/c.zip'' [''x.txt'']) 0 w =
     (Inr (0, 1),
      w\<lparr>collection := AList.update ''node:x.txt''
              ([0], code_points ''x.txt'', [(''source'', ''c.zip''), (''filename'', ''x.txt'')])
              (collection w),
        worker_manifests := AList.update 0 [(''c.zip'', ''300:30'')] (worker_manifests w)\<rparr>)"
  by (simp add: ex_flaky_env_def ex_env_def worker_eval path_name_def ex_fingerprints)

lemma ex_zip_worker1:
  "lookup_path w ''/data/rag/docs/c.zip'' = Some (zip_file 300 30 [''x.txt'', ''y.txt'']) \<Longrightarrow>
   embed ex_flaky_env (Zip_entries ''/data/rag/docs/c.zip'' [''y.txt'']) wid w =
     (Inl (WorkerError ''503 Server Error: Service Unavailable''), w)"
  by (simp add: ex_flaky_env_def ex_env_def worker_eval path_name_def)

lemma ex_zip_embed_results:
  "embed_results ex_flaky_env
     [(Zip_entries ''/data/rag/docs/c.zip'' [''x.txt''], 0),
      (Zip_entries ''/data/rag/docs/c.zip'' [''y.txt''], Suc 0)] 0
     (on_status ''embedding 2 documents across 2 GPU workers...''
        (on_status ''scanning documents...'' ex_zip_world))
   = (1, ex_zip_after)"
  by (simp add: ex_zip_worker0 ex_zip_lookup ex_zip_worker1 worker_done_def fmt_small fmt_suc)
     (simp add: on_status_def ex_zip_world_def ex_zip_after_def fmt_small fmt_suc)

lemma ex_zip_pipeline_embed:
  "pipeline_embed ex_flaky_env [''/data/rag/docs/c.zip'']
     (on_status ''scanning documents...'' ex_zip_world)
   = Inr (2, ex_zip_after)"
  by (simp add: pipeline_embed_def ex_zip_batches ex_zip_lookup upt_rec [of 0] upt_rec [of 1]
        fmt_small fmt_suc ex_zip_embed_results del: embed_results.simps)

lemma ex_zip_merged:
  "load_manifest (merge_worker_manifests ex_zip_after) = [(''c.zip'', ''300:30'')]"
  by (simp add: merge_worker_manifests_def load_manifest_def ex_zip_after_def ex_zip_world_def)

lemma ex_zip_retry_scan:
  "fst (scan False (merge_worker_manifests ex_zip_after)) = []"
  by (simp add: scan_def Let_def merge_worker_manifests_def load_manifest_def on_status_def
        ex_zip_after_def ex_zip_world_def ex_fingerprints)

lemma ex_zip_finalize_scan:
  "fst (scan False (snd (pipeline_finalize False 2 ex_zip_after))) = []"
  by (simp add: pipeline_finalize_def pipeline_finalize_index_def finalize_index_def Let_def
        pending_files_def docs_manifest_def scan_def load_manifest_def on_status_def
        ex_zip_after_def ex_zip_world_def ex_fingerprints)

text \<open>
  On the two new files of which the work item of \<open>b.txt\<close> raises, merging the
  worker manifests records \<open>a.txt\<close> alone and the next scan selects \<open>b.txt\<close>.
\<close>

lemma ex_new_merge_retry:
  "pipeline_embed ex_env [''/data/rag/docs/a.txt'', ''/data/rag/docs/b.txt'']
     (on_status ''scanning documents...'' ex_new_world) = Inr (2, w) \<Longrightarrow>
   load_manifest (merge_worker_manifests w) = [(''a.txt'', ''100:10'')]
   \<and> fst (scan False (merge_worker_manifests w)) = [''/data/rag/docs/b.txt'']"
  by (simp add: ex_pipeline_embed, erule subst)
     (simp add: scan_def Let_def merge_worker_manifests_def load_manifest_def on_status_def
        ex_new_world_def ex_fingerprints docs_path_def DOCS_DIR_def)

text \<open>
  Claim C4 says that the files of a failed work item are not recorded in the manifest and
  are selected again by the next scan. The worker of an archive slice records the whole
  archive in its manifest (\<open>_write_manifest\<close>). A new archive of two entries is planned
  as two slices; the worker of the first returns and records \<open>c.zip\<close>, the worker of the
  second raises. The merge of the worker manifests then holds the fingerprint of the
  archive, as does a manifest with one entry for every file present, and the scan without
  \<open>force\<close> selects nothing: the entry of the failed slice is not tried again.
\<close>

theorem failed_zip_slice_not_retried:
  "scan False ex_zip_world =
     ([''/data/rag/docs/c.zip''], on_status ''scanning documents...'' ex_zip_world)
   \<and> build_batches ex_zip_world [''/data/rag/docs/c.zip'']
       = Inr ([Zip_entries ''/data/rag/docs/c.zip'' [''x.txt''],
               Zip_entries ''/data/rag/docs/c.zip'' [''y.txt'']], 2)
   \<and> embed ex_flaky_env (Zip_entries ''/data/rag/docs/c.zip'' [''y.txt'']) 1 ex_zip_world
       = (Inl (WorkerError ''503 Server Error: Service Unavailable''), ex_zip_world)
   \<and> worker_manifests
        (snd (embed ex_flaky_env (Zip_entries ''/data/rag/docs/c.zip'' [''x.txt'']) 0 ex_zip_world))
       = [(0, [(''c.zip'', ''300:30'')])]
   \<and> pipeline_embed ex_flaky_env [''/data/rag/docs/c.zip'']
         (on_status ''scanning documents...'' ex_zip_world) = Inr (2, ex_zip_after)
   \<and> load_manifest (merge_worker_manifests ex_zip_after) = [(''c.zip'', ''300:30'')]
   \<and> fst (scan False (merge_worker_manifests ex_zip_after)) = []
   \<and> fst (scan False (snd (pipeline_finalize False 2 ex_zip_after))) = []"
proof -
  have w: "worker_manifests
        (snd (embed ex_flaky_env (Zip_entries ''/data/rag/docs/c.zip'' [''x.txt'']) 0 ex_zip_world))
       = [(0, [(''c.zip'', ''300:30'')])]"
    by (simp add: ex_zip_worker0 [OF ex_zip_lookup]) (simp add: ex_zip_world_def)
  show ?thesis
    by (intro conjI ex_zip_scan ex_zip_batches [OF ex_zip_lookup] ex_zip_worker1 [OF ex_zip_lookup] w
          ex_zip_pipeline_embed ex_zip_merged ex_zip_retry_scan ex_zip_finalize_scan)
qed

end
